theory Spec2Isabelle
  imports Main
begin

section \<open>Symbols and the C character classification\<close>

text \<open>
  A symbol is a C \<open>int\<close>: the value of an \<open>unsigned char\<close> read from the stream buffer
  (0 to 255), or the end-of-input value \<open>EOF\<close>, which is \<open>-1\<close>.
\<close>

definition EOF :: int where
  "EOF = - 1"

text \<open>
  The functions of \<open>cctype\<close> are library code outside the repository. They are taken
  in the "C" locale, the locale of a program that never calls \<open>setlocale\<close>; every one of
  them is false at \<open>EOF\<close> and at the codes above 127.
\<close>

definition isspace :: "int \<Rightarrow> bool" where
  "isspace c = (c = 32 \<or> (9 \<le> c \<and> c \<le> 13))"

definition isdigit :: "int \<Rightarrow> bool" where
  "isdigit c = (48 \<le> c \<and> c \<le> 57)"

definition isupper :: "int \<Rightarrow> bool" where
  "isupper c = (65 \<le> c \<and> c \<le> 90)"

definition islower :: "int \<Rightarrow> bool" where
  "islower c = (97 \<le> c \<and> c \<le> 122)"

definition isalpha :: "int \<Rightarrow> bool" where
  "isalpha c = (isupper c \<or> islower c)"

definition isalnum :: "int \<Rightarrow> bool" where
  "isalnum c = (isalpha c \<or> isdigit c)"

definition isprint :: "int \<Rightarrow> bool" where
  "isprint c = (32 \<le> c \<and> c \<le> 126)"

text \<open>
  Conversions between \<open>char\<close> and \<open>int\<close>. Plain \<open>char\<close> is taken as signed and eight bits
  wide (the x86 ABIs): \<open>int \<rightarrow> char\<close> keeps the low eight bits, \<open>char \<rightarrow> int\<close> sign-extends.
  The stream buffer itself hands characters out through \<open>unsigned char\<close>.
\<close>

definition int_to_char :: "int \<Rightarrow> char" where
  "int_to_char n = char_of n"

definition char_to_int :: "char \<Rightarrow> int" where
  "char_to_int c = (if of_char c < (128::int) then of_char c else of_char c - 256)"

definition to_int_type :: "char \<Rightarrow> int" where
  "to_int_type c = of_char c"

section \<open>Character predicates\<close>

text \<open>
  Each predicate class of the source is one constructor; \<open>Is_char c\<close> stores the
  character it was built from, \<open>Is_either\<close> and \<open>Is_not\<close> store their operands.
\<close>

datatype predicate =
    Is_any
  | Is_space
  | Is_digit
  | Is_upper
  | Is_lower
  | Is_alpha
  | Is_alnum
  | Is_print
  | Is_char char
  | Is_either predicate predicate
  | Is_not predicate

text \<open>The member \<open>name\<close> of each class.\<close>

fun name :: "predicate \<Rightarrow> string" where
  "name Is_any = ''anything''"
| "name Is_space = ''space''"
| "name Is_digit = ''digit''"
| "name Is_upper = ''uppercase''"
| "name Is_lower = ''lowercase''"
| "name Is_alpha = ''alphabetic''"
| "name Is_alnum = ''alphanumeric''"
| "name Is_print = ''printable''"
| "name (Is_char c) = [CHR 0x27] @ [c] @ [CHR 0x27]"
| "name (Is_either p1 p2) = ''('' @ name p1 @ '' or '' @ name p2 @ '')''"
| "name (Is_not p1) = ''~'' @ name p1"

text \<open>The call operator of each class.\<close>

fun holds :: "predicate \<Rightarrow> int \<Rightarrow> bool" where
  "holds Is_any c = (c \<noteq> EOF)"
| "holds Is_space c = isspace c"
| "holds Is_digit c = isdigit c"
| "holds Is_upper c = isupper c"
| "holds Is_lower c = islower c"
| "holds Is_alpha c = isalpha c"
| "holds Is_alnum c = isalnum c"
| "holds Is_print c = isprint c"
| "holds (Is_char k) c = (char_to_int k = c)"
| "holds (Is_either p1 p2) c = (holds p1 c \<or> holds p2 c)"
| "holds (Is_not p1) c = (\<not> holds p1 c)"

text \<open>\<open>is_char const is_eof(EOF)\<close>: the constructor takes a \<open>char\<close>, so \<open>EOF\<close> is narrowed.\<close>

definition is_eof :: predicate where
  "is_eof = Is_char (int_to_char EOF)"

section \<open>The input cursor\<close>

text \<open>
  The stream buffer behind \<open>in\<close> is library code; it is modelled as the list of the
  characters it has not handed out yet. \<open>sgetc\<close> reads the current character without
  moving. \<open>sbumpc\<close> returns the current character and \<open>snextc\<close> the one after it; both
  step past one character. At the end all three return \<open>EOF\<close> and the position stays
  where it is.
\<close>

definition sgetc :: "char list \<Rightarrow> int" where
  "sgetc b = (case b of [] \<Rightarrow> EOF | c # _ \<Rightarrow> to_int_type c)"

definition advance_buf :: "char list \<Rightarrow> char list" where
  "advance_buf b = (case b of [] \<Rightarrow> [] | _ # cs \<Rightarrow> cs)"

definition sbumpc :: "char list \<Rightarrow> int \<times> char list" where
  "sbumpc b = (sgetc b, advance_buf b)"

definition snextc :: "char list \<Rightarrow> int \<times> char list" where
  "snextc b = (sgetc (advance_buf b), advance_buf b)"

text \<open>
  The fields of \<open>pstream\<close>. The three counters are C \<open>int\<close>s of 32 bits. \<open>++\<close> on the
  largest of them is undefined in C++; the model takes the two's complement result that
  the generated code produces, so \<open>++x\<close> is \<open>wrap_int (x + 1)\<close>.
\<close>

definition wrap_int :: "int \<Rightarrow> int" where
  "wrap_int x = (x + 2147483648) mod 4294967296 - 2147483648"

record pstream =
  inbuf :: "char list"
  count :: int
  row :: int
  col :: int
  symb :: int

text \<open>The constructor: \<open>sym(in->sbumpc())\<close> reads the first symbol and steps past it.\<close>

definition pstream_init :: "char list \<Rightarrow> pstream" where
  "pstream_init f =
     (let (s, b) = sbumpc f
      in \<lparr> inbuf = b, count = 0, row = 1, col = 1, symb = s \<rparr>)"

text \<open>
  \<open>pstream::next\<close>: \<open>sym = in->sgetc(); in->snextc(); ++count;\<close> and then the position.
  The newline character is 10.
\<close>

definition pstream_next :: "pstream \<Rightarrow> pstream" where
  "pstream_next ps =
     (let s = sgetc (inbuf ps);
          (_, b) = snextc (inbuf ps);
          ps1 = ps \<lparr> symb := s, inbuf := b, count := wrap_int (count ps + 1) \<rparr>
      in if s = 10 then ps1 \<lparr> row := wrap_int (row ps1 + 1), col := 0 \<rparr>
         else if isprint s then ps1 \<lparr> col := wrap_int (col ps1 + 1) \<rparr>
         else ps1)"

text \<open>\<open>parse_error\<close>, and \<open>pstream::error\<close>, which throws it.\<close>

record parse_error =
  err_what :: string
  err_row :: int
  err_col :: int
  err_sym :: int
  err_exp :: string

definition pstream_error :: "pstream \<Rightarrow> string \<Rightarrow> string \<Rightarrow> parse_error" where
  "pstream_error ps err ex =
     \<lparr> err_what = err, err_row = row ps, err_col = col ps, err_sym = symb ps, err_exp = ex \<rparr>"

section \<open>Parsers\<close>

text \<open>
  A parser is called with the cursor and a pointer to the caller's result slot. The
  pointer is \<open>None\<close> for \<open>nullptr\<close> and \<open>Some v\<close> for a slot that holds \<open>v\<close>. A call
  either never returns (\<open>None\<close>), throws a \<open>parse_error\<close> (\<open>Inl\<close>), or returns its
  boolean with the cursor and the slot as it leaves them (\<open>Inr\<close>).
\<close>

type_synonym 'r outcome = "(parse_error + bool \<times> pstream \<times> 'r option) option"

type_synonym 'r parser = "pstream \<Rightarrow> 'r option \<Rightarrow> 'r outcome"

text \<open>\<open>result->push_back(sym)\<close> behind the null test.\<close>

definition push_back :: "string option \<Rightarrow> int \<Rightarrow> string option" where
  "push_back result s = (case result of None \<Rightarrow> None | Some str \<Rightarrow> Some (str @ [int_to_char s]))"

definition accept :: "predicate \<Rightarrow> string parser" where
  "accept p inp result =
     (let s = symb inp
      in if \<not> holds p s then Some (Inr (False, inp, result))
         else Some (Inr (True, pstream_next inp, push_back result s)))"

definition expect :: "predicate \<Rightarrow> string parser" where
  "expect p inp result =
     (let s = symb inp
      in if \<not> holds p s then Some (Inl (pstream_error inp ''expected'' (name p)))
         else Some (Inr (True, pstream_next inp, push_back result s)))"

definition succ :: "'r parser" where
  "succ inp result = Some (Inr (True, inp, result))"

definition fail :: "'r parser" where
  "fail inp result = Some (Inr (False, inp, result))"

text \<open>\<open>p1(in, result) || p2(in, result)\<close> and \<open>p1(in, result) && p2(in, result)\<close>.\<close>

definition combinator_choice :: "'r parser \<Rightarrow> 'r parser \<Rightarrow> 'r parser" where
  "combinator_choice p1 p2 inp result =
     (case p1 inp result of
        None \<Rightarrow> None
      | Some (Inl e) \<Rightarrow> Some (Inl e)
      | Some (Inr (b, inp1, result1)) \<Rightarrow>
          if b then Some (Inr (True, inp1, result1)) else p2 inp1 result1)"

definition combinator_sequence :: "'r parser \<Rightarrow> 'r parser \<Rightarrow> 'r parser" where
  "combinator_sequence p1 p2 inp result =
     (case p1 inp result of
        None \<Rightarrow> None
      | Some (Inl e) \<Rightarrow> Some (Inl e)
      | Some (Inr (b, inp1, result1)) \<Rightarrow>
          if b then p2 inp1 result1 else Some (Inr (False, inp1, result1)))"

text \<open>\<open>while (p(in, result)); return true;\<close> The loop need not end.\<close>

partial_function (option) combinator_many ::
  "'r parser \<Rightarrow> pstream \<Rightarrow> 'r option \<Rightarrow> (parse_error + bool \<times> pstream \<times> 'r option) option" where
  [code]: "combinator_many p inp result =
     (case p inp result of
        None \<Rightarrow> None
      | Some (Inl e) \<Rightarrow> Some (Inl e)
      | Some (Inr (b, inp1, result1)) \<Rightarrow>
          if b then combinator_many p inp1 result1 else Some (Inr (True, inp1, result1)))"

text \<open>\<open>discard\<close> calls its parser with a null pointer of the parser's own result type.\<close>

definition combinator_discard :: "'a parser \<Rightarrow> 'r parser" where
  "combinator_discard p inp result =
     (case p inp None of
        None \<Rightarrow> None
      | Some (Inl e) \<Rightarrow> Some (Inl e)
      | Some (Inr (b, inp1, _)) \<Rightarrow> Some (Inr (b, inp1, result)))"

definition option_p :: "'r parser \<Rightarrow> 'r parser" where
  "option_p p = combinator_choice p succ"

definition some :: "'r parser \<Rightarrow> 'r parser" where
  "some p = combinator_sequence p (combinator_many p)"

section \<open>Reducer combinators\<close>

text \<open>
  \<open>any\<close> and \<open>all\<close> take a parameter pack of parsers and keep a tuple \<open>tmp\<close> of their
  result types. The pack is modelled as a list of parsers of one result type \<open>'t\<close> (a sum
  type where the source mixes types), the tuple as a list of \<open>'t\<close>, and \<open>tmp_type tmp {}\<close>
  as that list filled with the value-initialised \<open>dflt\<close>. The index pack \<open>I...\<close> is a list
  of indices.

  A reducer is called with the pointer to the caller's slot (\<open>None\<close> when it is null) and
  the temporaries; its value is the slot as it leaves it. The source calls it whether or
  not the pointer is null.
\<close>

text \<open>
  A parser is handed \<open>&get<I0>(rs)\<close>, a pointer into the tuple: what it leaves in the
  slot is the new element \<open>I0\<close> of the tuple.
\<close>

definition store :: "'t list \<Rightarrow> nat \<Rightarrow> 't option \<Rightarrow> 't list" where
  "store rs i r = (case r of None \<Rightarrow> rs | Some v \<Rightarrow> rs[i := v])"

text \<open>
  \<open>any_parsers\<close> and \<open>all_parsers\<close> are member templates with two overloads each. The
  parameter list \<open>(pstream &in, Rs &rs, size_t, size_t is...)\<close> of the first declares
  one more parameter \<open>is\<close> and a C ellipsis, not a pack: a call of the first overload
  passes at least two index arguments, a call of the second (\<open>size_t\<close> alone, and the
  index pack \<open>I0\<close> alone) exactly one. A call for which neither overload is viable does
  not compile, and neither does an overload whose body makes such a call. So a call
  \<open>all_parsers<Rs, I...>(in, rs, a...)\<close> is either ill-formed or an instance: the
  function it runs.
\<close>

datatype 'a resolution = No_matching_function | Instance 'a

type_synonym 't any_run = "pstream \<Rightarrow> 't list \<Rightarrow> (parse_error + int \<times> pstream \<times> 't list) option"

type_synonym 't all_run = "pstream \<Rightarrow> 't list \<Rightarrow> (parse_error + bool \<times> pstream \<times> 't list) option"

text \<open>
  The body of the first overload of \<open>any_parsers\<close>, for the index \<open>I0\<close> and the instance
  \<open>rest\<close> of its call \<open>any_parsers<Rs, Is...>(in, rs, is)\<close>; then the body of the second.
\<close>

definition any_parsers_first :: "'t parser list \<Rightarrow> nat \<Rightarrow> 't any_run \<Rightarrow> 't any_run" where
  "any_parsers_first ps i0 rest inp rs =
     (case (ps ! i0) inp (Some (rs ! i0)) of
        None \<Rightarrow> None
      | Some (Inl e) \<Rightarrow> Some (Inl e)
      | Some (Inr (b, inp1, r1)) \<Rightarrow>
          if b then Some (Inr (int i0, inp1, store rs i0 r1))
          else rest inp1 (store rs i0 r1))"

definition any_parsers_second :: "'t parser list \<Rightarrow> nat \<Rightarrow> 't any_run" where
  "any_parsers_second ps i0 inp rs =
     (case (ps ! i0) inp (Some (rs ! i0)) of
        None \<Rightarrow> None
      | Some (Inl e) \<Rightarrow> Some (Inl e)
      | Some (Inr (b, inp1, r1)) \<Rightarrow>
          if b then Some (Inr (int i0, inp1, store rs i0 r1))
          else Some (Inr (- 1, inp1, store rs i0 r1)))"

text \<open>
  The call \<open>any_parsers<Rs, I...>(in, rs, a...)\<close> with the index pack \<open>I...\<close> and \<open>nargs\<close>
  index arguments. The call inside the first overload passes the one argument \<open>is\<close>.
\<close>

fun any_parsers :: "'t parser list \<Rightarrow> nat list \<Rightarrow> nat \<Rightarrow> 't any_run resolution" where
  "any_parsers ps [] nargs = No_matching_function"
| "any_parsers ps (i0 # js) nargs =
     (if 2 \<le> nargs then
        (case any_parsers ps js 1 of
           No_matching_function \<Rightarrow> No_matching_function
         | Instance rest \<Rightarrow> Instance (any_parsers_first ps i0 rest))
      else if js = [] \<and> nargs = 1 then Instance (any_parsers_second ps i0)
      else No_matching_function)"

text \<open>
  \<open>fmap_any\<close> calls \<open>any_parsers<tmp_type, I...>(in, tmp, I...)\<close>: as many arguments as
  indices. The call operator passes the indices \<open>0 ... n - 1\<close>.
\<close>

definition fmap_any ::
  "'t \<Rightarrow> ('r option \<Rightarrow> int \<Rightarrow> 't list \<Rightarrow> 'r option) \<Rightarrow> 't parser list \<Rightarrow> nat list
     \<Rightarrow> 'r parser resolution" where
  "fmap_any dflt f ps seq =
     (case any_parsers ps seq (length seq) of
        No_matching_function \<Rightarrow> No_matching_function
      | Instance run \<Rightarrow> Instance (\<lambda>inp result.
          let tmp = replicate (length ps) dflt
          in case run inp tmp of
               None \<Rightarrow> None
             | Some (Inl e) \<Rightarrow> Some (Inl e)
             | Some (Inr (i, inp1, tmp1)) \<Rightarrow>
                 if i \<ge> 0 then Some (Inr (True, inp1, f result i tmp1))
                 else Some (Inr (False, inp1, result))))"

definition fmap_choice ::
  "'t \<Rightarrow> ('r option \<Rightarrow> int \<Rightarrow> 't list \<Rightarrow> 'r option) \<Rightarrow> 't parser list
     \<Rightarrow> 'r parser resolution" where
  "fmap_choice dflt f ps = fmap_any dflt f ps [0 ..< length ps]"

text \<open>The same for \<open>all_parsers\<close>, \<open>fmap_all\<close> and the call operator of \<open>fmap_sequence\<close>.\<close>

definition all_parsers_first :: "'t parser list \<Rightarrow> nat \<Rightarrow> 't all_run \<Rightarrow> 't all_run" where
  "all_parsers_first ps i0 rest inp rs =
     (case (ps ! i0) inp (Some (rs ! i0)) of
        None \<Rightarrow> None
      | Some (Inl e) \<Rightarrow> Some (Inl e)
      | Some (Inr (b, inp1, r1)) \<Rightarrow>
          if b then rest inp1 (store rs i0 r1)
          else Some (Inr (False, inp1, store rs i0 r1)))"

definition all_parsers_second :: "'t parser list \<Rightarrow> nat \<Rightarrow> 't all_run" where
  "all_parsers_second ps i0 inp rs =
     (case (ps ! i0) inp (Some (rs ! i0)) of
        None \<Rightarrow> None
      | Some (Inl e) \<Rightarrow> Some (Inl e)
      | Some (Inr (b, inp1, r1)) \<Rightarrow> Some (Inr (b, inp1, store rs i0 r1)))"

fun all_parsers :: "'t parser list \<Rightarrow> nat list \<Rightarrow> nat \<Rightarrow> 't all_run resolution" where
  "all_parsers ps [] nargs = No_matching_function"
| "all_parsers ps (i0 # js) nargs =
     (if 2 \<le> nargs then
        (case all_parsers ps js 1 of
           No_matching_function \<Rightarrow> No_matching_function
         | Instance rest \<Rightarrow> Instance (all_parsers_first ps i0 rest))
      else if js = [] \<and> nargs = 1 then Instance (all_parsers_second ps i0)
      else No_matching_function)"

definition fmap_all ::
  "'t \<Rightarrow> ('r option \<Rightarrow> 't list \<Rightarrow> 'r option) \<Rightarrow> 't parser list \<Rightarrow> nat list
     \<Rightarrow> 'r parser resolution" where
  "fmap_all dflt f ps seq =
     (case all_parsers ps seq (length seq) of
        No_matching_function \<Rightarrow> No_matching_function
      | Instance run \<Rightarrow> Instance (\<lambda>inp result.
          let tmp = replicate (length ps) dflt
          in case run inp tmp of
               None \<Rightarrow> None
             | Some (Inl e) \<Rightarrow> Some (Inl e)
             | Some (Inr (b, inp1, tmp1)) \<Rightarrow>
                 if b then Some (Inr (True, inp1, f result tmp1))
                 else Some (Inr (False, inp1, result))))"

definition fmap_sequence ::
  "'t \<Rightarrow> ('r option \<Rightarrow> 't list \<Rightarrow> 'r option) \<Rightarrow> 't parser list \<Rightarrow> 'r parser resolution" where
  "fmap_sequence dflt f ps = fmap_all dflt f ps [0 ..< length ps]"

section \<open>Notions used by the properties\<close>

text \<open>The cursor after \<open>k\<close> advances.\<close>

definition advance :: "nat \<Rightarrow> pstream \<Rightarrow> pstream" where
  "advance k ps = (pstream_next ^^ k) ps"

text \<open>
  The symbols of the input \<open>f\<close> that \<open>k\<close> advances have consumed (the first \<open>k\<close>), and
  the symbols those advances have read into the buffered symbol (the \<open>k\<close> after the
  first, which the constructor read).
\<close>

definition consumed :: "char list \<Rightarrow> nat \<Rightarrow> int list" where
  "consumed f k = map to_int_type (take k f)"

definition fetched :: "char list \<Rightarrow> nat \<Rightarrow> int list" where
  "fetched f k = map to_int_type (take k (drop 1 f))"

definition newlines :: "int list \<Rightarrow> int" where
  "newlines xs = int (length (filter (\<lambda>c. c = 10) xs))"

definition printable_since_newline :: "int list \<Rightarrow> int" where
  "printable_since_newline xs = int (length (filter isprint (takeWhile (\<lambda>c. c \<noteq> 10) (rev xs))))"

text \<open>The number of symbols of the input that are still to be consumed.\<close>

definition remaining :: "pstream \<Rightarrow> nat" where
  "remaining ps = length (inbuf ps) + (if symb ps = EOF then 0 else 1)"

text \<open>A parser that consumes at least one symbol whenever it returns true.\<close>

definition consumes_on_success :: "'r parser \<Rightarrow> bool" where
  "consumes_on_success p =
     (\<forall>inp r inp1 r1. p inp r = Some (Inr (True, inp1, r1)) \<longrightarrow> remaining inp1 < remaining inp)"

text \<open>A parser whose every call comes back, with a value or with a \<open>parse_error\<close>.\<close>

definition comes_back :: "'r parser \<Rightarrow> bool" where
  "comes_back p = (\<forall>inp r. p inp r \<noteq> None)"

text \<open>A parser that leaves the caller's slot as it found it whenever it returns false.\<close>

definition keeps_slot_on_false :: "'r parser \<Rightarrow> bool" where
  "keeps_slot_on_false p =
     (\<forall>inp r inp1 r1. p inp r = Some (Inr (False, inp1, r1)) \<longrightarrow> r1 = r)"

text \<open>A parser that never returns false.\<close>

definition never_false :: "'r parser \<Rightarrow> bool" where
  "never_false p = (\<forall>inp r inp1 r1. p inp r \<noteq> Some (Inr (False, inp1, r1)))"

text \<open>
  A character parser that only appends: whatever it returns, a slot it was given holds
  its old contents followed by the characters written during the call.
\<close>

definition appends_only :: "string parser \<Rightarrow> bool" where
  "appends_only p =
     (\<forall>inp s b inp1 r1. p inp (Some s) = Some (Inr (b, inp1, r1)) \<longrightarrow> (\<exists>w. r1 = Some (s @ w)))"

text \<open>
  A predicate built from \<open>is_any\<close>, the class predicates, \<open>is_char\<close> of a character
  other than the one \<open>EOF\<close> narrows to, and disjunction.
\<close>

fun plain :: "predicate \<Rightarrow> bool" where
  "plain (Is_char c) = (c \<noteq> int_to_char EOF)"
| "plain (Is_either p1 p2) = (plain p1 \<and> plain p2)"
| "plain (Is_not p1) = False"
| "plain _ = True"

section \<open>The cursor, unfolded\<close>

lemma pstream_init_eq:
  "pstream_init f = \<lparr> inbuf = advance_buf f, count = 0, row = 1, col = 1, symb = sgetc f \<rparr>"
  by (simp add: pstream_init_def sbumpc_def)

lemma pstream_next_eq:
  "pstream_next ps =
     (let s = sgetc (inbuf ps);
          ps1 = ps \<lparr> symb := s, inbuf := advance_buf (inbuf ps), count := wrap_int (count ps + 1) \<rparr>
      in if s = 10 then ps1 \<lparr> row := wrap_int (row ps1 + 1), col := 0 \<rparr>
         else if isprint s then ps1 \<lparr> col := wrap_int (col ps1 + 1) \<rparr>
         else ps1)"
  by (simp add: pstream_next_def snextc_def Let_def)

lemma wrap_int_id: "- 2147483648 \<le> x \<Longrightarrow> x < 2147483648 \<Longrightarrow> wrap_int x = x"
  by (simp add: wrap_int_def)

lemma wrap_int_range: "- 2147483648 \<le> wrap_int x \<and> wrap_int x < 2147483648"
proof -
  have "0 \<le> (x + 2147483648) mod 4294967296" "(x + 2147483648) mod 4294967296 < 4294967296"
    by simp_all
  then show ?thesis
    unfolding wrap_int_def by linarith
qed

lemma wrap_int_add: "wrap_int (wrap_int x + y) = wrap_int (x + y)"
proof -
  have a: "wrap_int x + y + 2147483648 = (x + 2147483648) mod 4294967296 + y"
    by (simp add: wrap_int_def)
  have b: "x + 2147483648 + y = x + y + 2147483648"
    by simp
  have "(wrap_int x + y + 2147483648) mod 4294967296 = (x + 2147483648 + y) mod 4294967296"
    unfolding a by (rule mod_add_left_eq)
  then have "(wrap_int x + y + 2147483648) mod 4294967296 = (x + y + 2147483648) mod 4294967296"
    unfolding b .
  then show ?thesis
    by (simp only: wrap_int_def [of "wrap_int x + y"] wrap_int_def [of "x + y"])
qed

lemma wrap_int_add2: "wrap_int (y + wrap_int x) = wrap_int (y + x)"
  using wrap_int_add [of x y] by (simp only: add.commute)

lemma wrap_int_0: "wrap_int 0 = 0"
  by (simp add: wrap_int_def)

section \<open>Characters and the end-of-input symbol\<close>

lemma of_char_int_bounds: "0 \<le> (of_char c :: int) \<and> (of_char c :: int) < 256"
  using pos_mod_sign [of 256 "of_char c :: int"] pos_mod_bound [of 256 "of_char c :: int"] by simp

lemma to_int_type_not_EOF: "to_int_type c \<noteq> EOF"
  using of_char_int_bounds [of c] by (simp add: to_int_type_def EOF_def)

lemma char_to_int_EOF: "char_to_int (int_to_char EOF) = EOF"
  by (simp add: char_to_int_def int_to_char_def EOF_def)

lemma char_to_int_eq_EOF: "char_to_int c = EOF \<Longrightarrow> c = int_to_char EOF"
proof -
  assume a: "char_to_int c = EOF"
  have "(of_char c :: int) = 255"
    using a of_char_int_bounds [of c] by (simp add: char_to_int_def EOF_def split: if_splits)
  then have "char_of (of_char c :: int) = char_of (255 :: int)" by (rule arg_cong)
  then show ?thesis by (simp add: int_to_char_def EOF_def)
qed

lemma class_predicates_reject_EOF:
  "\<not> isspace EOF" "\<not> isdigit EOF" "\<not> isupper EOF" "\<not> islower EOF"
  "\<not> isalpha EOF" "\<not> isalnum EOF" "\<not> isprint EOF"
  by (simp_all add: EOF_def isspace_def isdigit_def isupper_def islower_def isalpha_def
      isalnum_def isprint_def)

lemma plain_rejects_EOF: "plain p \<Longrightarrow> \<not> holds p EOF"
proof (induction p)
  case (Is_char c)
  then show ?case using char_to_int_eq_EOF [of c] by auto
qed (simp_all add: class_predicates_reject_EOF)

text \<open>
  C4, as the code has it. The end-of-input symbol satisfies no predicate built from
  \<open>is_any\<close>, the class predicates, \<open>is_char\<close> of a character other than the one \<open>EOF\<close>
  narrows to, and disjunction; it satisfies \<open>is_eof\<close>. Negation is the plain complement:
  \<open>~p\<close> holds at end-of-input exactly when \<open>p\<close> does not, so the negation of any such
  predicate is satisfied by end-of-input.
\<close>

theorem eof_matches_only_without_negation:
  "(plain p \<longrightarrow> \<not> holds p EOF) \<and> holds is_eof EOF \<and> (holds (Is_not p) EOF \<longleftrightarrow> \<not> holds p EOF)"
  using plain_rejects_EOF [of p] by (simp add: is_eof_def char_to_int_EOF)

theorem eof_matches_only_without_negation_witness:
  "plain (Is_either Is_digit (Is_char CHR ''a'')) \<and> \<not> holds (Is_either Is_digit (Is_char CHR ''a'')) EOF
   \<and> holds (Is_not (Is_either Is_digit (Is_char CHR ''a''))) EOF"
  using eof_matches_only_without_negation [of "Is_either Is_digit (Is_char CHR ''a'')"]
  by (simp add: int_to_char_def EOF_def char_of_def char_to_int_def isdigit_def)

text \<open>
  C4 as stated fails: \<open>~is_digit\<close> is built from the predicate algebra, is not the
  end-of-input predicate, and holds at end-of-input.
\<close>

theorem negation_matches_eof_counterexample:
  "Is_not Is_digit \<noteq> is_eof \<and> holds (Is_not Is_digit) EOF"
  by (simp add: is_eof_def EOF_def isdigit_def)

section \<open>The cursor\<close>

lemma sgetc_drop:
  "sgetc (drop k f) = (if k < length f then to_int_type (f ! k) else EOF)"
  by (cases "drop k f") (auto simp: sgetc_def hd_drop_conv_nth dest: arg_cong [where f = hd])

lemma advance_buf_drop: "advance_buf (drop k f) = drop (Suc k) f"
  by (cases "drop k f") (auto simp: advance_buf_def drop_Suc dest: arg_cong [where f = tl] simp: tl_drop)

lemma advance_Suc: "advance (Suc k) ps = pstream_next (advance k ps)"
  by (simp add: advance_def)

lemma fetched_Suc:
  "fetched f (Suc k) = (if Suc k < length f then fetched f k @ [to_int_type (f ! Suc k)] else fetched f k)"
  by (simp add: fetched_def take_Suc_conv_app_nth)

lemma newlines_snoc: "newlines (xs @ [c]) = newlines xs + (if c = 10 then 1 else 0)"
  by (simp add: newlines_def)

lemma printable_since_newline_snoc:
  "printable_since_newline (xs @ [c]) =
     (if c = 10 then 0 else printable_since_newline xs + (if isprint c then 1 else 0))"
  by (simp add: printable_since_newline_def)

lemma not_isprint_newline: "\<not> isprint 10"
  by (simp add: isprint_def)

text \<open>
  The cursor after \<open>k\<close> advances on the input \<open>f\<close>: the position follows the symbols the
  advances have read into the buffered symbol.
\<close>

lemma cursor_after_advances:
  "inbuf (advance k (pstream_init f)) = drop (Suc k) f
   \<and> symb (advance k (pstream_init f)) = (if k < length f then to_int_type (f ! k) else EOF)
   \<and> count (advance k (pstream_init f)) = wrap_int (int k)
   \<and> row (advance k (pstream_init f)) = wrap_int (1 + newlines (fetched f k))
   \<and> col (advance k (pstream_init f)) =
       wrap_int ((if 10 \<in> set (fetched f k) then 0 else 1) + printable_since_newline (fetched f k))"
proof (induction k)
  case 0
  show ?case
    using sgetc_drop [of 0 f] advance_buf_drop [of 0 f]
    by (simp add: advance_def pstream_init_eq fetched_def newlines_def printable_since_newline_def
        wrap_int_def)
next
  case (Suc k)
  show ?case
  proof (cases "Suc k < length f")
    case True
    with Suc show ?thesis
      by (simp add: advance_Suc pstream_next_eq Let_def sgetc_drop advance_buf_drop fetched_Suc
          newlines_snoc printable_since_newline_snoc not_isprint_newline wrap_int_add
          wrap_int_add2 wrap_int_0 add.commute add.left_commute)
  next
    case False
    with Suc show ?thesis
      by (simp add: advance_Suc pstream_next_eq Let_def sgetc_def advance_buf_def fetched_Suc
          class_predicates_reject_EOF wrap_int_add wrap_int_add2 add.commute) (simp add: EOF_def)
  qed
qed

lemma newlines_bounds: "0 \<le> newlines xs \<and> newlines xs \<le> int (length xs)"
  by (simp add: newlines_def)

lemma printable_since_newline_bounds:
  "0 \<le> printable_since_newline xs \<and> printable_since_newline xs \<le> int (length xs)"
proof -
  have "length (filter isprint (takeWhile (\<lambda>c. c \<noteq> 10) (rev xs)))
      \<le> length (takeWhile (\<lambda>c. c \<noteq> 10) (rev xs))"
    by (rule length_filter_le)
  also have "\<dots> \<le> length (rev xs)"
    by (rule length_takeWhile_le)
  finally show ?thesis
    by (simp add: printable_since_newline_def)
qed

lemma fetched_full: "fetched f (length f) = drop 1 (consumed f (length f))"
  by (cases f) (simp_all add: fetched_def consumed_def)

lemma newlines_after_first: "c \<noteq> 10 \<Longrightarrow> newlines (c # ys) = newlines ys"
  by (simp add: newlines_def)

lemma printable_since_newline_after_first:
  "10 \<in> set ys \<Longrightarrow> printable_since_newline (c # ys) = printable_since_newline ys"
  by (simp add: printable_since_newline_def takeWhile_append1 [where x = 10])

lemma position_after_full_parse:
  assumes first: "take 1 xs \<noteq> [10]"
  shows "newlines (drop 1 xs) = newlines xs
    \<and> (10 \<in> set (drop 1 xs) \<longleftrightarrow> 10 \<in> set xs)
    \<and> (10 \<in> set xs \<longrightarrow> printable_since_newline (drop 1 xs) = printable_since_newline xs)"
proof (cases xs)
  case Nil
  then show ?thesis by simp
next
  case (Cons c ys)
  with first have "c \<noteq> 10" by simp
  with Cons show ?thesis
    by (auto simp: newlines_after_first printable_since_newline_after_first)
qed

text \<open>
  C3, as the code has it. The position is that of the buffered symbol: the constructor
  puts the first symbol of the input at row 1, column 1, and each advance moves the
  position by the symbol it reads into the buffer. After a full parse the buffered
  symbol is end-of-input, which is neither a newline nor printable. So for an input of
  fewer than \<open>2^31 - 1\<close> symbols that does not begin with a newline, the row after a full
  parse is one plus the number of newlines consumed; the column is the number of
  printable symbols consumed since the last newline when a newline was consumed, and
  otherwise one plus the number of printable symbols consumed after the first symbol of
  the input.
\<close>

theorem row_col_after_full_parse:
  assumes "take 1 (consumed f (length f)) \<noteq> [10]" and "int (length f) < 2147483647"
  shows "symb (advance (length f) (pstream_init f)) = EOF
    \<and> row (advance (length f) (pstream_init f)) = 1 + newlines (consumed f (length f))
    \<and> col (advance (length f) (pstream_init f)) =
        (if 10 \<in> set (consumed f (length f))
         then printable_since_newline (consumed f (length f))
         else 1 + printable_since_newline (drop 1 (consumed f (length f))))"
proof -
  let ?xs = "consumed f (length f)"
  let ?ys = "drop 1 ?xs"
  note c = cursor_after_advances [of "length f" f, unfolded fetched_full]
  note p = position_after_full_parse [OF assms(1)]
  have len: "int (length ?ys) \<le> int (length f)"
    by (simp add: consumed_def)
  have r: "wrap_int (1 + newlines ?ys) = 1 + newlines ?ys"
    using newlines_bounds [of ?ys] len assms(2) by (intro wrap_int_id) linarith+
  have k: "wrap_int ((if 10 \<in> set ?ys then 0 else 1) + printable_since_newline ?ys)
      = (if 10 \<in> set ?ys then 0 else 1) + printable_since_newline ?ys"
  proof -
    have "0 \<le> (if 10 \<in> set ?ys then 0 else 1 :: int) \<and> (if 10 \<in> set ?ys then 0 else 1 :: int) \<le> 1"
      by simp
    with printable_since_newline_bounds [of ?ys] len assms(2) show ?thesis
      by (intro wrap_int_id) linarith+
  qed
  from c have "symb (advance (length f) (pstream_init f)) = EOF"
    by simp
  moreover from c r p have "row (advance (length f) (pstream_init f)) = 1 + newlines ?xs"
    by simp
  moreover from c k p have "col (advance (length f) (pstream_init f)) =
        (if 10 \<in> set ?xs then printable_since_newline ?xs
         else 1 + printable_since_newline ?ys)"
    by simp
  ultimately show ?thesis
    by simp
qed

theorem row_col_after_full_parse_witness:
  "take 1 (consumed [CHR ''a'', CHR 0x0A, CHR ''b''] 3) \<noteq> [10]
   \<and> symb (advance 3 (pstream_init [CHR ''a'', CHR 0x0A, CHR ''b''])) = EOF
   \<and> row (advance 3 (pstream_init [CHR ''a'', CHR 0x0A, CHR ''b''])) = 2
   \<and> col (advance 3 (pstream_init [CHR ''a'', CHR 0x0A, CHR ''b''])) = 1
   \<and> row (advance 2 (pstream_init ''ab'')) = 1
   \<and> col (advance 2 (pstream_init ''ab'')) = 2"
proof -
  have h: "take 1 (consumed [CHR ''a'', CHR 0x0A, CHR ''b''] (length [CHR ''a'', CHR 0x0A, CHR ''b''])) \<noteq> [10]"
    by (simp add: consumed_def to_int_type_def)
  have g: "take 1 (consumed ''ab'' (length ''ab'')) \<noteq> [10]"
    by (simp add: consumed_def to_int_type_def)
  from row_col_after_full_parse [OF h] row_col_after_full_parse [OF g] show ?thesis
    by (simp add: consumed_def to_int_type_def newlines_def printable_since_newline_def
        isprint_def numeral_2_eq_2 numeral_3_eq_3)
qed

text \<open>
  C3 as stated fails after a full parse: on \<open>"a"\<close> one printable symbol is consumed and
  the column is 1, not 2.
\<close>

theorem row_col_consumed_counterexample:
  "symb (advance 1 (pstream_init ''a'')) = EOF
   \<and> col (advance 1 (pstream_init ''a'')) \<noteq> printable_since_newline (consumed ''a'' 1) + 1"
  by (simp add: advance_def pstream_init_eq pstream_next_eq sgetc_def advance_buf_def
      to_int_type_def isprint_def EOF_def consumed_def newlines_def printable_since_newline_def
      wrap_int_def)

lemma next_at_end:
  "inbuf ps = [] \<Longrightarrow> pstream_next ps = ps \<lparr> symb := EOF, count := wrap_int (count ps + 1) \<rparr>"
  by (simp add: pstream_next_eq Let_def sgetc_def advance_buf_def class_predicates_reject_EOF)
     (simp add: EOF_def)

lemma advance_at_end:
  assumes e: "inbuf ps = []" and s: "symb ps = EOF" and c: "count ps = wrap_int c"
  shows "advance m ps = ps \<lparr> count := wrap_int (c + int m) \<rparr>"
proof (induction m)
  case 0
  show ?case using c by (simp add: advance_def)
next
  case (Suc m)
  have same: "ps \<lparr> symb := EOF \<rparr> = ps"
    using s by (cases ps) simp
  have "advance (Suc m) ps = pstream_next (ps \<lparr> count := wrap_int (c + int m) \<rparr>)"
    using Suc by (simp add: advance_Suc)
  also have "\<dots> = ps \<lparr> symb := EOF, count := wrap_int (wrap_int (c + int m) + 1) \<rparr>"
    using e by (simp add: next_at_end)
  also have "\<dots> = ps \<lparr> count := wrap_int (c + int (Suc m)) \<rparr>"
    by (simp add: same wrap_int_add wrap_int_add2 add.commute add.left_commute)
  finally show ?case .
qed

lemma reachable_EOF_at_end:
  assumes "ps = advance k (pstream_init f)" and "symb ps = EOF"
  shows "inbuf ps = []"
proof -
  have "\<not> k < length f"
    using assms cursor_after_advances [of k f] to_int_type_not_EOF by (auto split: if_splits)
  then show ?thesis
    using assms cursor_after_advances [of k f] by simp
qed

text \<open>
  C10. On a cursor reached from any input whose buffered symbol is end-of-input, any
  number of further advances leaves the buffered symbol at end-of-input and the row and
  column as they were, while \<open>++count\<close> runs each time: the byte count goes up by one
  for each advance as long as it stays below \<open>2^31\<close>, and wraps round there.
  \<open>accept(is_eof)\<close> returns true on such a cursor and advances, although no symbol of the
  input is left to consume.
\<close>

theorem advance_at_end_of_input:
  assumes "ps = advance k (pstream_init f)" and "symb ps = EOF"
  shows "symb (advance m ps) = EOF \<and> row (advance m ps) = row ps \<and> col (advance m ps) = col ps
    \<and> count (advance m ps) = wrap_int (count ps + int m)
    \<and> (count ps + int m < 2147483648 \<longrightarrow> count (advance m ps) = count ps + int m)
    \<and> accept is_eof ps result = Some (Inr (True, pstream_next ps, push_back result EOF))
    \<and> count (pstream_next ps) = wrap_int (count ps + 1)
    \<and> remaining (pstream_next ps) = remaining ps"
proof -
  have e: "inbuf ps = []" using assms by (rule reachable_EOF_at_end)
  have c: "count ps = wrap_int (int k)"
    using assms(1) cursor_after_advances [of k f] by simp
  have "advance m ps = ps \<lparr> count := wrap_int (int k + int m) \<rparr>"
    using e assms(2) c by (rule advance_at_end)
  then have a: "advance m ps = ps \<lparr> count := wrap_int (count ps + int m) \<rparr>"
    by (simp add: c wrap_int_add)
  have n: "pstream_next ps = ps \<lparr> symb := EOF, count := wrap_int (count ps + 1) \<rparr>"
    using e by (rule next_at_end)
  have h: "holds is_eof (symb ps)"
    using assms(2) by (simp add: is_eof_def char_to_int_EOF)
  have b: "count ps + int m < 2147483648 \<longrightarrow> wrap_int (count ps + int m) = count ps + int m"
    using wrap_int_range [of "int k"] c by (auto intro!: wrap_int_id)
  from a n h b show ?thesis
    using assms(2) e by (simp add: accept_def remaining_def)
qed

theorem advance_at_end_of_input_witness:
  "symb (advance 1 (pstream_init ''a'')) = EOF
   \<and> symb (advance 3 (advance 1 (pstream_init ''a''))) = EOF
   \<and> row (advance 3 (advance 1 (pstream_init ''a''))) = 1
   \<and> col (advance 3 (advance 1 (pstream_init ''a''))) = 1
   \<and> count (advance 3 (advance 1 (pstream_init ''a''))) = 4
   \<and> accept is_eof (advance 1 (pstream_init ''a'')) (Some ''a'')
      = Some (Inr (True, \<lparr> inbuf = [], count = 2, row = 1, col = 1, symb = - 1 \<rparr>, Some [CHR ''a'', CHR 0xFF]))"
proof -
  have a: "advance 1 (pstream_init ''a'') = \<lparr> inbuf = [], count = 1, row = 1, col = 1, symb = - 1 \<rparr>"
    by (simp add: advance_def pstream_init_eq pstream_next_eq sgetc_def advance_buf_def
        to_int_type_def isprint_def EOF_def wrap_int_def)
  have h: "symb (advance 1 (pstream_init ''a'')) = EOF"
    unfolding a by (simp add: EOF_def)
  have n: "pstream_next \<lparr> inbuf = [], count = 1, row = 1, col = 1, symb = - 1 \<rparr>
        = \<lparr> inbuf = [], count = 2, row = 1, col = 1, symb = - 1 \<rparr>"
    by (simp add: next_at_end EOF_def wrap_int_def)
  show ?thesis
    using h advance_at_end_of_input [OF refl h, of 3 "Some ''a''"]
    unfolding a by (simp add: n push_back_def int_to_char_def EOF_def char_of_def wrap_int_def)
qed

section \<open>The primitive recognisers\<close>

text \<open>
  C9. When the buffered symbol does not satisfy the predicate, \<open>accept\<close> returns false
  and hands back the cursor (row, column, byte count, buffered symbol) and the slot
  unchanged.
\<close>

theorem accept_mismatch_leaves_cursor:
  assumes "\<not> holds p (symb inp)"
  shows "accept p inp result = Some (Inr (False, inp, result))"
  using assms by (simp add: accept_def)

theorem accept_mismatch_leaves_cursor_witness:
  "\<not> holds Is_digit (symb (pstream_init ''x''))
   \<and> accept Is_digit (pstream_init ''x'') (Some '''')
       = Some (Inr (False, \<lparr> inbuf = [], count = 0, row = 1, col = 1, symb = 120 \<rparr>, Some ''''))"
proof -
  have h: "\<not> holds Is_digit (symb (pstream_init ''x''))"
    by (simp add: pstream_init_eq sgetc_def to_int_type_def isdigit_def)
  show ?thesis
    using h accept_mismatch_leaves_cursor [OF h, of "Some ''''"]
    by (simp add: pstream_init_eq sgetc_def advance_buf_def to_int_type_def)
qed

text \<open>
  C5. On a buffered symbol that does not satisfy the predicate, \<open>expect\<close> throws a
  \<open>parse_error\<close> with the cursor's row and column, the buffered symbol and the
  predicate's name; on one that does, it appends the symbol to the slot, advances and
  returns true, as \<open>accept\<close> does.
\<close>

theorem expect_raises_or_accepts:
  "(\<not> holds p (symb inp) \<longrightarrow>
      expect p inp result =
        Some (Inl \<lparr> err_what = ''expected'', err_row = row inp, err_col = col inp,
                     err_sym = symb inp, err_exp = name p \<rparr>))
   \<and> (holds p (symb inp) \<longrightarrow>
      expect p inp result = Some (Inr (True, pstream_next inp, push_back result (symb inp)))
      \<and> expect p inp result = accept p inp result)"
  by (simp add: expect_def accept_def pstream_error_def)

theorem expect_raises_or_accepts_witness:
  "expect Is_digit (pstream_init ''x'') (Some '''')
     = Some (Inl \<lparr> err_what = ''expected'', err_row = 1, err_col = 1, err_sym = 120, err_exp = ''digit'' \<rparr>)
   \<and> expect Is_digit (pstream_init ''7x'') (Some '''')
     = Some (Inr (True, \<lparr> inbuf = [], count = 1, row = 1, col = 2, symb = 120 \<rparr>, Some ''7''))"
  using expect_raises_or_accepts [of Is_digit "pstream_init ''x''" "Some ''''"]
    expect_raises_or_accepts [of Is_digit "pstream_init ''7x''" "Some ''''"]
  by (simp add: pstream_init_eq pstream_next_eq wrap_int_def sgetc_def advance_buf_def to_int_type_def
      isdigit_def isprint_def push_back_def int_to_char_def char_of_def)

section \<open>Concrete runs\<close>

text \<open>
  The definitions that a run on a concrete input unfolds.
\<close>

lemmas cursor_simps = pstream_init_eq pstream_next_eq wrap_int_def sgetc_def advance_buf_def
  to_int_type_def
  isprint_def EOF_def

lemmas char_simps = char_to_int_def int_to_char_def push_back_def char_of_def

lemma accept_a_on_b:
  "accept (Is_char CHR ''a'') (pstream_init ''b'') (Some '''')
     = Some (Inr (False, pstream_init ''b'', Some ''''))"
  by (simp add: accept_def cursor_simps char_simps)

lemma accept_b_on_b:
  "accept (Is_char CHR ''b'') (pstream_init ''b'') (Some '''')
     = Some (Inr (True, \<lparr> inbuf = [], count = 1, row = 1, col = 1, symb = - 1 \<rparr>, Some ''b''))"
  by (simp add: accept_def cursor_simps char_simps)

lemma accept_a_on_ax:
  "accept (Is_char CHR ''a'') (pstream_init ''ax'') (Some '''')
     = Some (Inr (True, \<lparr> inbuf = [], count = 1, row = 1, col = 2, symb = 120 \<rparr>, Some ''a''))"
  by (simp add: accept_def cursor_simps char_simps)

lemma accept_x_after_a:
  "accept (Is_char CHR ''x'') \<lparr> inbuf = [], count = 1, row = 1, col = 2, symb = 120 \<rparr> (Some '''')
     = Some (Inr (True, \<lparr> inbuf = [], count = 2, row = 1, col = 2, symb = - 1 \<rparr>, Some ''x''))"
  by (simp add: accept_def cursor_simps char_simps)

lemma accept_b_after_a:
  "accept (Is_char CHR ''b'') \<lparr> inbuf = [], count = 1, row = 1, col = 2, symb = 120 \<rparr> (Some '''')
     = Some (Inr (False, \<lparr> inbuf = [], count = 1, row = 1, col = 2, symb = 120 \<rparr>, Some ''''))"
  by (simp add: accept_def cursor_simps char_simps)

lemma expect_digit_on_x:
  "expect Is_digit (pstream_init ''x'') (Some '''')
     = Some (Inl \<lparr> err_what = ''expected'', err_row = 1, err_col = 1, err_sym = 120, err_exp = ''digit'' \<rparr>)"
  by (simp add: expect_def pstream_error_def cursor_simps isdigit_def)

lemma accept_b_on_ax:
  "accept (Is_char CHR ''b'') (pstream_init ''ax'') (Some '''')
     = Some (Inr (False, pstream_init ''ax'', Some ''''))"
  by (simp add: accept_def cursor_simps char_simps)

lemma sequence_ab_on_ax:
  "combinator_sequence (accept (Is_char CHR ''a'')) (accept (Is_char CHR ''b''))
      (pstream_init ''ax'') (Some '''')
     = Some (Inr (False, \<lparr> inbuf = [], count = 1, row = 1, col = 2, symb = 120 \<rparr>, Some ''a''))"
  by (simp add: combinator_sequence_def accept_def cursor_simps char_simps)

text \<open>
  Scenario 1 of the specification: \<open>some(accept(digit))\<close> on \<open>"123abc"\<close> returns true
  with \<open>"123"\<close> in the slot and the cursor at column 4 on \<open>'a'\<close>.
\<close>

lemma some_digits_on_123abc:
  "some (accept Is_digit) (pstream_init ''123abc'') (Some '''')
     = Some (Inr (True, \<lparr> inbuf = ''bc'', count = 3, row = 1, col = 4, symb = 97 \<rparr>, Some ''123''))"
  by (simp add: some_def combinator_sequence_def combinator_many.simps accept_def cursor_simps
      char_simps isdigit_def)

section \<open>Ordered choice\<close>

text \<open>
  C1, as the code has it. The choice runs \<open>p\<close> and returns true when \<open>p\<close> does. When
  \<open>p\<close> returns false it runs \<open>q\<close> on the cursor and the slot as \<open>p\<close> left them and returns
  the outcome of \<open>q\<close>, whether or not \<open>p\<close> consumed input; there is no test of the cursor
  between the two calls. A \<open>parse_error\<close> thrown by \<open>p\<close> passes through, and the choice
  does not return when \<open>p\<close> does not.
\<close>

theorem choice_runs_second_after_failure:
  "(p1 inp result = Some (Inr (True, inp1, r1)) \<longrightarrow>
      combinator_choice p1 p2 inp result = Some (Inr (True, inp1, r1)))
   \<and> (p1 inp result = Some (Inr (False, inp1, r1)) \<longrightarrow>
      combinator_choice p1 p2 inp result = p2 inp1 r1)
   \<and> (p1 inp result = Some (Inl e) \<longrightarrow> combinator_choice p1 p2 inp result = Some (Inl e))
   \<and> (p1 inp result = None \<longrightarrow> combinator_choice p1 p2 inp result = None)"
  by (simp add: combinator_choice_def)

theorem choice_runs_second_after_failure_witness:
  "accept (Is_char CHR ''a'') (pstream_init ''b'') (Some '''')
     = Some (Inr (False, pstream_init ''b'', Some ''''))
   \<and> combinator_choice (accept (Is_char CHR ''a'')) (accept (Is_char CHR ''b''))
        (pstream_init ''b'') (Some '''')
     = Some (Inr (True, \<lparr> inbuf = [], count = 1, row = 1, col = 1, symb = - 1 \<rparr>, Some ''b''))
   \<and> combinator_choice (accept (Is_char CHR ''b'')) (accept (Is_char CHR ''a''))
        (pstream_init ''b'') (Some '''')
     = Some (Inr (True, \<lparr> inbuf = [], count = 1, row = 1, col = 1, symb = - 1 \<rparr>, Some ''b''))
   \<and> combinator_choice (expect Is_digit) (accept (Is_char CHR ''x''))
        (pstream_init ''x'') (Some '''')
     = Some (Inl \<lparr> err_what = ''expected'', err_row = 1, err_col = 1, err_sym = 120, err_exp = ''digit'' \<rparr>)"
  using choice_runs_second_after_failure [of "accept (Is_char CHR ''a'')" "pstream_init ''b''"
      "Some ''''" "pstream_init ''b''" "Some ''''" "accept (Is_char CHR ''b'')"]
    choice_runs_second_after_failure [of "accept (Is_char CHR ''b'')" "pstream_init ''b''"
      "Some ''''" "\<lparr> inbuf = [], count = 1, row = 1, col = 1, symb = - 1 \<rparr>" "Some ''b''"
      "accept (Is_char CHR ''a'')"]
    choice_runs_second_after_failure [of "expect Is_digit" "pstream_init ''x''" "Some ''''" _ _ _
      "\<lparr> err_what = ''expected'', err_row = 1, err_col = 1, err_sym = 120, err_exp = ''digit'' \<rparr>"]
    expect_digit_on_x
  by (simp add: accept_a_on_b accept_b_on_b)

text \<open>
  C1 as stated fails: on \<open>"ax"\<close> the sequence \<open>accept('a') && accept('b')\<close> consumes
  \<open>'a'\<close> and returns false, and the choice between it and \<open>accept('x')\<close> still runs the
  second parser and returns true.
\<close>

theorem choice_after_consuming_failure_counterexample:
  "combinator_sequence (accept (Is_char CHR ''a'')) (accept (Is_char CHR ''b''))
      (pstream_init ''ax'') (Some '''')
     = Some (Inr (False, \<lparr> inbuf = [], count = 1, row = 1, col = 2, symb = 120 \<rparr>, Some ''a''))
   \<and> count (pstream_init ''ax'') = 0
   \<and> combinator_choice
        (combinator_sequence (accept (Is_char CHR ''a'')) (accept (Is_char CHR ''b'')))
        (accept (Is_char CHR ''x'')) (pstream_init ''ax'') (Some '''')
     = Some (Inr (True, \<lparr> inbuf = [], count = 2, row = 1, col = 2, symb = - 1 \<rparr>, Some ''ax''))"
  by (simp add: combinator_choice_def combinator_sequence_def accept_def cursor_simps char_simps)

section \<open>Overload resolution in the reducer combinators\<close>

lemma any_parsers_one: "any_parsers ps [i] 1 = Instance (any_parsers_second ps i)"
  by simp

lemma any_parsers_two:
  "any_parsers ps [i, j] 2 = Instance (any_parsers_first ps i (any_parsers_second ps j))"
  by simp

lemma any_parsers_three_or_more: "any_parsers ps (i # j # k # js) nargs = No_matching_function"
  by simp

lemma all_parsers_one: "all_parsers ps [i] 1 = Instance (all_parsers_second ps i)"
  by simp

lemma all_parsers_two:
  "all_parsers ps [i, j] 2 = Instance (all_parsers_first ps i (all_parsers_second ps j))"
  by simp

lemma all_parsers_three_or_more: "all_parsers ps (i # j # k # js) nargs = No_matching_function"
  by simp

lemma three_or_more: "3 \<le> length xs \<Longrightarrow> \<exists>i j k js. xs = i # j # k # js"
  by (auto simp: numeral_3_eq_3 Suc_le_length_iff)

text \<open>
  The call operators of \<open>fmap_choice\<close> and \<open>fmap_sequence\<close> have an instance for one
  parser and for two, and for no other number.
\<close>

lemma fmap_any_instance:
  "fmap_any dflt f ps seq = Instance run \<Longrightarrow>
     \<exists>go. any_parsers ps seq (length seq) = Instance go
       \<and> run = (\<lambda>inp result.
            case go inp (replicate (length ps) dflt) of
              None \<Rightarrow> None
            | Some (Inl e) \<Rightarrow> Some (Inl e)
            | Some (Inr (i, inp1, tmp1)) \<Rightarrow>
                if i \<ge> 0 then Some (Inr (True, inp1, f result i tmp1))
                else Some (Inr (False, inp1, result)))"
  by (auto simp: fmap_any_def Let_def split: resolution.splits)

lemma fmap_all_instance:
  "fmap_all dflt f ps seq = Instance run \<Longrightarrow>
     \<exists>go. all_parsers ps seq (length seq) = Instance go
       \<and> run = (\<lambda>inp result.
            case go inp (replicate (length ps) dflt) of
              None \<Rightarrow> None
            | Some (Inl e) \<Rightarrow> Some (Inl e)
            | Some (Inr (b, inp1, tmp1)) \<Rightarrow>
                if b then Some (Inr (True, inp1, f result tmp1))
                else Some (Inr (False, inp1, result)))"
  by (auto simp: fmap_all_def Let_def split: resolution.splits)

lemma fmap_choice_resolves:
  "fmap_choice dflt f ps = No_matching_function \<longleftrightarrow> length ps \<noteq> 1 \<and> length ps \<noteq> 2"
proof -
  consider "length ps = 0" | "length ps = 1" | "length ps = 2" | "3 \<le> length ps"
    by linarith
  then show ?thesis
  proof cases
    case 4
    then have "3 \<le> length [0 ..< length ps]" by simp
    from three_or_more [OF this] obtain i j k js where "[0 ..< length ps] = i # j # k # js"
      by blast
    with 4 show ?thesis
      by (simp add: fmap_choice_def fmap_any_def del: upt_Suc)
  qed (simp_all add: fmap_choice_def fmap_any_def numeral_2_eq_2)
qed

lemma fmap_sequence_resolves:
  "fmap_sequence dflt f ps = No_matching_function \<longleftrightarrow> length ps \<noteq> 1 \<and> length ps \<noteq> 2"
proof -
  consider "length ps = 0" | "length ps = 1" | "length ps = 2" | "3 \<le> length ps"
    by linarith
  then show ?thesis
  proof cases
    case 4
    then have "3 \<le> length [0 ..< length ps]" by simp
    from three_or_more [OF this] obtain i j k js where "[0 ..< length ps] = i # j # k # js"
      by blast
    with 4 show ?thesis
      by (simp add: fmap_sequence_def fmap_all_def del: upt_Suc)
  qed (simp_all add: fmap_sequence_def fmap_all_def numeral_2_eq_2)
qed

lemma fmap_choice_instance:
  "length ps = 1 \<or> length ps = 2 \<Longrightarrow> \<exists>run. fmap_choice dflt f ps = Instance run"
  using fmap_choice_resolves [of dflt f ps] by (cases "fmap_choice dflt f ps") auto

lemma fmap_sequence_instance:
  "length ps = 1 \<or> length ps = 2 \<Longrightarrow> \<exists>run. fmap_sequence dflt f ps = Instance run"
  using fmap_sequence_resolves [of dflt f ps] by (cases "fmap_sequence dflt f ps") auto

section \<open>The result slot\<close>

lemma many_never_false:
  assumes "combinator_many p inp result = Some y"
  shows "\<forall>inp1 r1. y \<noteq> Inr (False, inp1, r1)"
proof (rule combinator_many.raw_induct
    [where P = "\<lambda>p inp result y. \<forall>inp1 r1. y \<noteq> Inr (False, inp1, r1)", OF _ assms])
  fix many :: "'a parser \<Rightarrow> 'a parser" and p :: "'a parser" and inp result y
  assume IH: "\<And>p inp result y. many p inp result = Some y \<Longrightarrow> \<forall>inp1 r1. y \<noteq> Inr (False, inp1, r1)"
    and eq: "(case p inp result of
        None \<Rightarrow> None
      | Some (Inl e) \<Rightarrow> Some (Inl e)
      | Some (Inr (b, inp1, result1)) \<Rightarrow>
          if b then many p inp1 result1 else Some (Inr (True, inp1, result1))) = Some y"
  show "\<forall>inp1 r1. y \<noteq> Inr (False, inp1, r1)"
    using IH eq by (auto split: option.splits sum.splits prod.splits if_splits)
qed

lemma keeps_slot_accept: "keeps_slot_on_false (accept pr)"
  by (auto simp: keeps_slot_on_false_def accept_def Let_def split: if_splits)

lemma keeps_slot_fail: "keeps_slot_on_false fail"
  by (simp add: keeps_slot_on_false_def fail_def)

lemma keeps_slot_discard: "keeps_slot_on_false (combinator_discard p)"
  by (auto simp: keeps_slot_on_false_def combinator_discard_def
      split: option.splits sum.splits prod.splits)

lemma keeps_slot_fmap_choice:
  "fmap_choice dflt f ps = Instance run \<Longrightarrow> keeps_slot_on_false run"
  unfolding fmap_choice_def
  by (drule fmap_any_instance)
     (auto simp: keeps_slot_on_false_def split: option.splits sum.splits prod.splits if_splits)

lemma keeps_slot_fmap_sequence:
  "fmap_sequence dflt g ps = Instance run \<Longrightarrow> keeps_slot_on_false run"
  unfolding fmap_sequence_def
  by (drule fmap_all_instance)
     (auto simp: keeps_slot_on_false_def split: option.splits sum.splits prod.splits if_splits)

lemma never_false_expect: "never_false (expect pr)"
  by (simp add: never_false_def expect_def Let_def)

lemma never_false_succ: "never_false succ"
  by (simp add: never_false_def succ_def)

lemma never_false_many: "never_false (combinator_many p)"
  unfolding never_false_def
proof (intro allI notI)
  fix inp r inp1 r1
  assume "combinator_many p inp r = Some (Inr (False, inp1, r1))"
  from many_never_false [OF this] show False by blast
qed

lemma keeps_slot_choice:
  "keeps_slot_on_false p1 \<Longrightarrow> keeps_slot_on_false p2 \<Longrightarrow> keeps_slot_on_false (combinator_choice p1 p2)"
  unfolding keeps_slot_on_false_def combinator_choice_def
  by (auto split: option.splits sum.splits prod.splits if_splits) blast

lemma choice_false_iff:
  "combinator_choice p1 p2 inp r = Some (Inr (False, inp2, r2)) \<longleftrightarrow>
     (\<exists>inp1 r1. p1 inp r = Some (Inr (False, inp1, r1)) \<and> p2 inp1 r1 = Some (Inr (False, inp2, r2)))"
  by (auto simp: combinator_choice_def split: option.splits sum.splits prod.splits if_splits)

lemma sequence_false_iff:
  "combinator_sequence p1 p2 inp r = Some (Inr (False, inp2, r2)) \<longleftrightarrow>
     p1 inp r = Some (Inr (False, inp2, r2))
     \<or> (\<exists>inp1 r1. p1 inp r = Some (Inr (True, inp1, r1)) \<and> p2 inp1 r1 = Some (Inr (False, inp2, r2)))"
  by (auto simp: combinator_sequence_def split: option.splits sum.splits prod.splits if_splits)

lemma appends_only_accept: "appends_only (accept pr)"
  by (auto simp: appends_only_def accept_def push_back_def Let_def split: if_splits)

lemma appends_only_expect: "appends_only (expect pr)"
  by (auto simp: appends_only_def expect_def push_back_def Let_def split: if_splits)

lemma appends_only_succ: "appends_only succ"
  by (simp add: appends_only_def succ_def)

lemma appends_only_fail: "appends_only fail"
  by (simp add: appends_only_def fail_def)

lemma appends_only_discard: "appends_only (combinator_discard p)"
  by (auto simp: appends_only_def combinator_discard_def
      split: option.splits sum.splits prod.splits)

lemma appends_only_choice:
  assumes "appends_only s1" and "appends_only s2"
  shows "appends_only (combinator_choice s1 s2)"
  unfolding appends_only_def
proof (intro allI impI)
  fix inp s b inp2 r2
  assume run: "combinator_choice s1 s2 inp (Some s) = Some (Inr (b, inp2, r2))"
  then obtain b1 inp1 r1 where one: "s1 inp (Some s) = Some (Inr (b1, inp1, r1))"
    by (auto simp: combinator_choice_def split: option.splits sum.splits)
  with assms(1) obtain w1 where w1: "r1 = Some (s @ w1)"
    unfolding appends_only_def by blast
  show "\<exists>w. r2 = Some (s @ w)"
  proof (cases b1)
    case True
    with run one w1 show ?thesis by (auto simp: combinator_choice_def)
  next
    case False
    with run one w1 have "s2 inp1 (Some (s @ w1)) = Some (Inr (b, inp2, r2))"
      by (simp add: combinator_choice_def)
    with assms(2) obtain w2 where "r2 = Some ((s @ w1) @ w2)"
      unfolding appends_only_def by blast
    then show ?thesis by simp
  qed
qed

lemma appends_only_sequence:
  assumes "appends_only s1" and "appends_only s2"
  shows "appends_only (combinator_sequence s1 s2)"
  unfolding appends_only_def
proof (intro allI impI)
  fix inp s b inp2 r2
  assume run: "combinator_sequence s1 s2 inp (Some s) = Some (Inr (b, inp2, r2))"
  then obtain b1 inp1 r1 where one: "s1 inp (Some s) = Some (Inr (b1, inp1, r1))"
    by (auto simp: combinator_sequence_def split: option.splits sum.splits)
  with assms(1) obtain w1 where w1: "r1 = Some (s @ w1)"
    unfolding appends_only_def by blast
  show "\<exists>w. r2 = Some (s @ w)"
  proof (cases b1)
    case False
    with run one w1 show ?thesis by (auto simp: combinator_sequence_def)
  next
    case True
    with run one w1 have "s2 inp1 (Some (s @ w1)) = Some (Inr (b, inp2, r2))"
      by (simp add: combinator_sequence_def)
    with assms(2) obtain w2 where "r2 = Some ((s @ w1) @ w2)"
      unfolding appends_only_def by blast
    then show ?thesis by simp
  qed
qed

lemma many_appends:
  assumes "combinator_many p inp result = Some y"
  shows "appends_only p \<longrightarrow>
     (\<forall>s b inp2 r2. result = Some s \<and> y = Inr (b, inp2, r2) \<longrightarrow> (\<exists>w. r2 = Some (s @ w)))"
proof (rule combinator_many.raw_induct
    [where P = "\<lambda>p inp result y. appends_only p \<longrightarrow>
       (\<forall>s b inp2 r2. result = Some s \<and> y = Inr (b, inp2, r2) \<longrightarrow> (\<exists>w. r2 = Some (s @ w)))",
     OF _ assms])
  fix many :: "string parser \<Rightarrow> string parser" and p :: "string parser" and inp result y
  assume IH: "\<And>p inp result y. many p inp result = Some y \<Longrightarrow> appends_only p \<longrightarrow>
       (\<forall>s b inp2 r2. result = Some s \<and> y = Inr (b, inp2, r2) \<longrightarrow> (\<exists>w. r2 = Some (s @ w)))"
    and eq: "(case p inp result of
        None \<Rightarrow> None
      | Some (Inl e) \<Rightarrow> Some (Inl e)
      | Some (Inr (b, inp1, result1)) \<Rightarrow>
          if b then many p inp1 result1 else Some (Inr (True, inp1, result1))) = Some y"
  show "appends_only p \<longrightarrow>
       (\<forall>s b inp2 r2. result = Some s \<and> y = Inr (b, inp2, r2) \<longrightarrow> (\<exists>w. r2 = Some (s @ w)))"
  proof (intro impI allI)
    fix s b inp2 r2
    assume ap: "appends_only p" and "result = Some s \<and> y = Inr (b, inp2, r2)"
    then have r: "result = Some s" and y: "y = Inr (b, inp2, r2)" by simp_all
    from eq y obtain b1 inp1 r1 where one: "p inp result = Some (Inr (b1, inp1, r1))"
      by (auto split: option.splits sum.splits)
    with ap r obtain w1 where w1: "r1 = Some (s @ w1)"
      unfolding appends_only_def by blast
    show "\<exists>w. r2 = Some (s @ w)"
    proof (cases b1)
      case False
      with eq one y w1 show ?thesis by auto
    next
      case True
      with eq one have "many p inp1 r1 = Some y" by simp
      from IH [OF this] ap w1 y obtain w2 where "r2 = Some ((s @ w1) @ w2)"
        by blast
      then show ?thesis by simp
    qed
  qed
qed

lemma appends_only_many: "appends_only s1 \<Longrightarrow> appends_only (combinator_many s1)"
  unfolding appends_only_def [of "combinator_many s1"]
  using many_appends by blast

text \<open>
  C2, as the code has it. No parser restores the slot, so a false return leaves it as
  the caller supplied it only while nothing has been written. \<open>accept\<close>, \<open>fail\<close>,
  \<open>discard(p)\<close> and, where their call operator has an instance, \<open>any(f, ...)\<close> and
  \<open>all(f, ...)\<close> leave the caller's slot exactly as it was whenever they return false;
  \<open>expect\<close>, \<open>succ\<close> and \<open>many(p)\<close> never return false.
  \<open>p || q\<close> returns false exactly when \<open>p\<close> returns false and then \<open>q\<close>, run on the
  cursor and the slot \<open>p\<close> left, returns false; the slot is as \<open>q\<close> left it, which is
  unchanged when \<open>p\<close> and \<open>q\<close> each leave it unchanged on false. \<open>p && q\<close> returns false
  exactly when \<open>p\<close> returns false, and the slot is as \<open>p\<close> left it, or \<open>p\<close> returns true
  and \<open>q\<close>, run on what \<open>p\<close> left, returns false, and the slot is as \<open>q\<close> left it. For
  the character parsers built from \<open>accept\<close>, \<open>expect\<close>, \<open>succ\<close>, \<open>fail\<close>, \<open>discard\<close>,
  \<open>||\<close>, \<open>&&\<close> and \<open>many\<close>, the slot after any return holds its old contents followed
  by the characters written during the call.
\<close>

theorem slot_after_false_return:
  "keeps_slot_on_false (accept pr)
   \<and> keeps_slot_on_false (fail :: 'r parser)
   \<and> keeps_slot_on_false (combinator_discard (p :: 'a parser) :: 'r parser)
   \<and> (fmap_choice (dflt :: 't) f ps = Instance any_run \<longrightarrow>
        keeps_slot_on_false (any_run :: 'r parser))
   \<and> (fmap_sequence (dflt :: 't) g qs = Instance all_run \<longrightarrow>
        keeps_slot_on_false (all_run :: 'r parser))
   \<and> never_false (expect pr) \<and> never_false (succ :: 'r parser)
   \<and> never_false (combinator_many (q :: 'r parser))
   \<and> (keeps_slot_on_false p1 \<and> keeps_slot_on_false p2 \<longrightarrow>
        keeps_slot_on_false (combinator_choice p1 (p2 :: 'r parser)))
   \<and> (combinator_choice p1 p2 inp r = Some (Inr (False, inp2, r2)) \<longleftrightarrow>
        (\<exists>inp1 r1. p1 inp r = Some (Inr (False, inp1, r1))
           \<and> p2 inp1 r1 = Some (Inr (False, inp2, r2))))
   \<and> (combinator_sequence p1 p2 inp r = Some (Inr (False, inp2, r2)) \<longleftrightarrow>
        p1 inp r = Some (Inr (False, inp2, r2))
        \<or> (\<exists>inp1 r1. p1 inp r = Some (Inr (True, inp1, r1))
           \<and> p2 inp1 r1 = Some (Inr (False, inp2, r2))))
   \<and> appends_only (accept pr) \<and> appends_only (expect pr) \<and> appends_only succ
   \<and> appends_only fail \<and> appends_only (combinator_discard p)
   \<and> (appends_only s1 \<and> appends_only s2 \<longrightarrow>
        appends_only (combinator_choice s1 s2) \<and> appends_only (combinator_sequence s1 s2))
   \<and> (appends_only s1 \<longrightarrow> appends_only (combinator_many s1))"
proof -
  have a: "fmap_choice dflt f ps = Instance any_run \<longrightarrow> keeps_slot_on_false any_run"
    using keeps_slot_fmap_choice [of dflt f ps any_run] by blast
  have b: "fmap_sequence dflt g qs = Instance all_run \<longrightarrow> keeps_slot_on_false all_run"
    using keeps_slot_fmap_sequence [of dflt g qs all_run] by blast
  have c: "keeps_slot_on_false p1 \<and> keeps_slot_on_false p2 \<longrightarrow>
        keeps_slot_on_false (combinator_choice p1 p2)"
    using keeps_slot_choice [of p1 p2] by blast
  have d: "appends_only s1 \<and> appends_only s2 \<longrightarrow>
        appends_only (combinator_choice s1 s2) \<and> appends_only (combinator_sequence s1 s2)"
    using appends_only_choice [of s1 s2] appends_only_sequence [of s1 s2] by blast
  have e: "appends_only s1 \<longrightarrow> appends_only (combinator_many s1)"
    using appends_only_many [of s1] by blast
  show ?thesis
    by (intro conjI a b c d e keeps_slot_accept keeps_slot_fail keeps_slot_discard
        never_false_expect never_false_succ never_false_many choice_false_iff sequence_false_iff
        appends_only_accept appends_only_expect appends_only_succ appends_only_fail
        appends_only_discard)
qed

lemma accept_a_on_axz:
  "accept (Is_char CHR ''a'') (pstream_init ''axz'') (Some '''')
     = Some (Inr (True, \<lparr> inbuf = ''z'', count = 1, row = 1, col = 2, symb = 120 \<rparr>, Some ''a''))"
  by (simp add: accept_def cursor_simps char_simps)

lemma sequence_xb_after_a:
  "combinator_sequence (accept (Is_char CHR ''x'')) (accept (Is_char CHR ''b''))
      \<lparr> inbuf = ''z'', count = 1, row = 1, col = 2, symb = 120 \<rparr> (Some ''a'')
     = Some (Inr (False, \<lparr> inbuf = [], count = 2, row = 1, col = 3, symb = 122 \<rparr>, Some ''ax''))"
  by (simp add: combinator_sequence_def accept_def cursor_simps char_simps)

lemma choice_ab_on_x:
  "accept (Is_char CHR ''a'') (pstream_init ''x'') (Some '''')
     = Some (Inr (False, pstream_init ''x'', Some ''''))
   \<and> accept (Is_char CHR ''b'') (pstream_init ''x'') (Some '''')
     = Some (Inr (False, pstream_init ''x'', Some ''''))"
  by (simp add: accept_def cursor_simps char_simps)

theorem slot_after_false_return_witness:
  "combinator_sequence
      (combinator_sequence (accept (Is_char CHR ''a'')) (accept (Is_char CHR ''b'')))
      (accept (Is_char CHR ''x'')) (pstream_init ''ax'') (Some '''')
     = Some (Inr (False, \<lparr> inbuf = [], count = 1, row = 1, col = 2, symb = 120 \<rparr>, Some ''a''))
   \<and> combinator_sequence (accept (Is_char CHR ''a''))
      (combinator_sequence (accept (Is_char CHR ''x'')) (accept (Is_char CHR ''b'')))
      (pstream_init ''axz'') (Some '''')
     = Some (Inr (False, \<lparr> inbuf = [], count = 2, row = 1, col = 3, symb = 122 \<rparr>, Some ''ax''))
   \<and> combinator_choice (accept (Is_char CHR ''a'')) (accept (Is_char CHR ''b''))
      (pstream_init ''x'') (Some '''')
     = Some (Inr (False, pstream_init ''x'', Some ''''))
   \<and> appends_only (combinator_sequence
        (combinator_sequence (accept (Is_char CHR ''a'')) (accept (Is_char CHR ''b'')))
        (accept (Is_char CHR ''x'')))
   \<and> appends_only (combinator_many (accept (Is_char CHR ''a'')))
   \<and> keeps_slot_on_false (combinator_choice (accept (Is_char CHR ''a'')) (accept (Is_char CHR ''b'')))
   \<and> (case fmap_choice '''' (\<lambda>r (k :: int) ts. r :: string option)
          [accept (Is_char CHR ''a''), accept (Is_char CHR ''b'')] of
        No_matching_function \<Rightarrow> False
      | Instance run \<Rightarrow> keeps_slot_on_false run)
   \<and> (case fmap_sequence '''' (\<lambda>r ts. r :: string option)
          [accept (Is_char CHR ''a''), accept (Is_char CHR ''b'')] of
        No_matching_function \<Rightarrow> False
      | Instance run \<Rightarrow> keeps_slot_on_false run)"
proof -
  let ?a = "accept (Is_char CHR ''a'')"
  let ?b = "accept (Is_char CHR ''b'')"
  let ?x = "accept (Is_char CHR ''x'')"
  let ?c1 = "\<lparr> inbuf = [], count = 1, row = 1, col = 2, symb = 120 \<rparr>"
  let ?c2 = "\<lparr> inbuf = [], count = 2, row = 1, col = 3, symb = 122 \<rparr>"
  obtain any_run
    where any_run: "fmap_choice '''' (\<lambda>r (k :: int) ts. r :: string option) [?a, ?b] = Instance any_run"
    using fmap_choice_instance [of "[?a, ?b]" "''''" "\<lambda>r (k :: int) ts. r :: string option"] by auto
  obtain all_run
    where all_run: "fmap_sequence '''' (\<lambda>r ts. r :: string option) [?a, ?b] = Instance all_run"
    using fmap_sequence_instance [of "[?a, ?b]" "''''" "\<lambda>r ts. r :: string option"] by auto
  note base = slot_after_false_return
    [where p = ?a and q = ?a
      and dflt = "''''" and f = "\<lambda>r (k :: int) ts. r :: string option" and ps = "[?a, ?b]"
      and any_run = any_run and g = "\<lambda>r ts. r :: string option" and qs = "[?a, ?b]"
      and all_run = all_run]
  note left = base
    [where ?p1.0 = "combinator_sequence ?a ?b" and ?p2.0 = ?x and inp = "pstream_init ''ax''"
      and r = "Some ''''" and ?inp2.0 = ?c1 and ?r2.0 = "Some ''a''"
      and ?s1.0 = "combinator_sequence ?a ?b" and ?s2.0 = ?x and pr = "Is_char CHR ''x''"]
  note right = base
    [where ?p1.0 = ?a and ?p2.0 = "combinator_sequence ?x ?b" and inp = "pstream_init ''axz''"
      and r = "Some ''''" and ?inp2.0 = ?c2 and ?r2.0 = "Some ''ax''"
      and ?s1.0 = ?a and ?s2.0 = ?b and pr = "Is_char CHR ''a''"]
  note inner = base
    [where ?p1.0 = ?a and ?p2.0 = ?b and inp = "pstream_init ''x''"
      and r = "Some ''''" and ?inp2.0 = "pstream_init ''x''" and ?r2.0 = "Some ''''"
      and ?s1.0 = ?a and ?s2.0 = ?b and pr = "Is_char CHR ''b''"]
  from left have l: "combinator_sequence (combinator_sequence ?a ?b) ?x (pstream_init ''ax'') (Some '''')
        = Some (Inr (False, ?c1, Some ''a''))"
    using sequence_ab_on_ax by blast
  from right have r: "combinator_sequence ?a (combinator_sequence ?x ?b) (pstream_init ''axz'') (Some '''')
        = Some (Inr (False, ?c2, Some ''ax''))"
    using accept_a_on_axz sequence_xb_after_a by blast
  from inner have c: "combinator_choice ?a ?b (pstream_init ''x'') (Some '''')
        = Some (Inr (False, pstream_init ''x'', Some ''''))"
    using choice_ab_on_x by blast
  from right have aa: "appends_only ?a" by blast
  from inner have ab: "appends_only ?b" by blast
  from left have ax: "appends_only ?x" by blast
  from inner aa ab have "appends_only (combinator_sequence ?a ?b)" by blast
  with left ax have ap: "appends_only (combinator_sequence (combinator_sequence ?a ?b) ?x)" by blast
  from right aa have am: "appends_only (combinator_many ?a)" by blast
  from right have ka: "keeps_slot_on_false ?a" by blast
  from inner have kb: "keeps_slot_on_false ?b" by blast
  from inner ka kb have kc: "keeps_slot_on_false (combinator_choice ?a ?b)" by blast
  from right any_run have kr: "keeps_slot_on_false any_run" by blast
  from right all_run have ks: "keeps_slot_on_false all_run" by blast
  from l r c ap am kc kr ks show ?thesis
    by (simp add: any_run all_run)
qed

text \<open>
  C2 as stated fails in the very case it names: \<open>accept('a') && accept('b')\<close> on \<open>"ax"\<close>
  returns false and the slot, empty before the call, holds \<open>"a"\<close>.
\<close>

theorem failed_sequence_leaves_writes_counterexample:
  "combinator_sequence (accept (Is_char CHR ''a'')) (accept (Is_char CHR ''b''))
      (pstream_init ''ax'') (Some '''')
     = Some (Inr (False, \<lparr> inbuf = [], count = 1, row = 1, col = 2, symb = 120 \<rparr>, Some ''a''))
   \<and> Some ''a'' \<noteq> Some ''''"
  by (simp add: combinator_sequence_def accept_def cursor_simps char_simps)

section \<open>Repetition\<close>

lemma next_consumes:
  assumes "symb ps \<noteq> EOF"
  shows "remaining (pstream_next ps) < remaining ps"
proof (cases "inbuf ps")
  case Nil
  with assms show ?thesis
    by (simp add: remaining_def next_at_end)
next
  case (Cons c cs)
  with assms to_int_type_not_EOF [of c] show ?thesis
    by (simp add: remaining_def pstream_next_eq Let_def sgetc_def advance_buf_def)
qed

lemma comes_back_accept: "comes_back (accept pr)"
  by (simp add: comes_back_def accept_def Let_def)

lemma comes_back_expect: "comes_back (expect pr)"
  by (simp add: comes_back_def expect_def Let_def)

lemma isdigit_not_EOF: "isdigit c \<Longrightarrow> c \<noteq> EOF"
  by (auto simp: isdigit_def EOF_def)

lemma consumes_accept_digit: "consumes_on_success (accept Is_digit)"
  by (auto simp: consumes_on_success_def accept_def Let_def split: if_splits
      intro!: next_consumes isdigit_not_EOF)

lemma consumes_expect_digit: "consumes_on_success (expect Is_digit)"
  by (auto simp: consumes_on_success_def expect_def Let_def split: if_splits
      intro!: next_consumes isdigit_not_EOF)

lemma accept_never_raises: "accept pr inp r \<noteq> Some (Inl e)"
  by (simp add: accept_def Let_def)

lemma many_comes_back:
  assumes cb: "comes_back p" and cs: "consumes_on_success p"
  shows "\<exists>res. combinator_many p inp result = Some res
     \<and> (case res of Inl e \<Rightarrow> \<exists>inp' r'. p inp' r' = Some (Inl e) | Inr (b, inp1, r1) \<Rightarrow> b)"
proof (induction "remaining inp" arbitrary: inp result rule: less_induct)
  case less
  from cb obtain y where y: "p inp result = Some y"
    by (auto simp: comes_back_def)
  show ?case
  proof (cases y)
    case (Inl e)
    with y show ?thesis
      by (subst combinator_many.simps) auto
  next
    case (Inr t)
    then obtain b inp1 r1 where t: "y = Inr (b, inp1, r1)"
      by (cases t) auto
    show ?thesis
    proof (cases b)
      case True
      with y t cs have "remaining inp1 < remaining inp"
        by (auto simp: consumes_on_success_def)
      from less [OF this, of r1] y t True show ?thesis
        by (subst combinator_many.simps) simp
    next
      case False
      with y t show ?thesis
        by (subst combinator_many.simps) simp
    qed
  qed
qed

lemma many_digits_on_12a:
  "combinator_many (accept Is_digit) (pstream_init ''12a'') (Some '''')
   = Some (Inr (True, \<lparr> inbuf = [], count = 2, row = 1, col = 3, symb = 97 \<rparr>, Some ''12''))"
  by (simp add: combinator_many.simps accept_def cursor_simps char_simps isdigit_def)

text \<open>
  C8, as the code has it. For every parser \<open>p\<close> whose calls all come back and that
  consumes at least one symbol of the input whenever it returns true, \<open>many(p)\<close> comes
  back on every input: it returns true, or it passes on a \<open>parse_error\<close> that a call of
  \<open>p\<close> has thrown. When no call of \<open>p\<close> throws, \<open>many(p)\<close> returns true.
\<close>

theorem many_terminates:
  assumes "comes_back p" and "consumes_on_success p"
  shows "(\<exists>res. combinator_many p inp result = Some res
            \<and> (case res of Inl e \<Rightarrow> \<exists>inp' r'. p inp' r' = Some (Inl e) | Inr (b, inp1, r1) \<Rightarrow> b))
     \<and> ((\<forall>inp' r' e. p inp' r' \<noteq> Some (Inl e)) \<longrightarrow>
          (\<exists>inp1 r1. combinator_many p inp result = Some (Inr (True, inp1, r1))))"
proof -
  from many_comes_back [OF assms, of inp result]
  obtain res where r: "combinator_many p inp result = Some res"
    and c: "case res of Inl e \<Rightarrow> \<exists>inp' r'. p inp' r' = Some (Inl e) | Inr (b, inp1, r1) \<Rightarrow> b"
    by blast
  then show ?thesis
    by (cases res) auto
qed

theorem many_terminates_witness:
  "comes_back (accept Is_digit) \<and> consumes_on_success (accept Is_digit)
   \<and> combinator_many (accept Is_digit) (pstream_init ''12a'') (Some '''')
      = Some (Inr (True, \<lparr> inbuf = [], count = 2, row = 1, col = 3, symb = 97 \<rparr>, Some ''12''))
   \<and> (\<exists>inp1 r1. combinator_many (accept Is_digit) (pstream_init ''12a'') (Some '''')
          = Some (Inr (True, inp1, r1)))"
  using many_terminates [OF comes_back_accept consumes_accept_digit, of "pstream_init ''12a''" "Some ''''"]
    comes_back_accept [of Is_digit] consumes_accept_digit accept_never_raises [of Is_digit]
    many_digits_on_12a
  by simp

text \<open>
  C8 as stated fails: \<open>expect(digit)\<close> consumes a symbol whenever it returns true, and
  \<open>many(expect(digit))\<close> on \<open>"1"\<close> does not return true; it throws at the end of the
  input.
\<close>

theorem many_expect_raises_counterexample:
  "comes_back (expect Is_digit) \<and> consumes_on_success (expect Is_digit)
   \<and> combinator_many (expect Is_digit) (pstream_init ''1'') (Some '''')
      = Some (Inl \<lparr> err_what = ''expected'', err_row = 1, err_col = 1, err_sym = - 1, err_exp = ''digit'' \<rparr>)"
  using comes_back_expect [of Is_digit] consumes_expect_digit
  by (simp add: combinator_many.simps expect_def pstream_error_def cursor_simps char_simps isdigit_def)

text \<open>
  The hypothesis of C8 is about symbols of the input, not about the byte count: at the
  end of the input \<open>accept(is_eof)\<close> returns true and advances for ever, and the loop of
  \<open>many\<close> never ends.
\<close>

lemma many_accept_eof_never_returns:
  assumes "inbuf inp = []" and "symb inp = EOF"
  shows "combinator_many (accept is_eof) inp result = None"
proof (rule ccontr)
  assume "combinator_many (accept is_eof) inp result \<noteq> None"
  then obtain y where y: "combinator_many (accept is_eof) inp result = Some y"
    by blast
  have "\<not> (accept is_eof = accept is_eof \<and> inbuf inp = [] \<and> symb inp = EOF)"
  proof (rule combinator_many.raw_induct
      [where P = "\<lambda>p inp result y. \<not> (p = accept is_eof \<and> inbuf inp = [] \<and> symb inp = EOF)", OF _ y])
    fix many :: "string parser \<Rightarrow> string parser" and p :: "string parser" and inp result y
    assume IH: "\<And>p inp result y. many p inp result = Some y
        \<Longrightarrow> \<not> (p = accept is_eof \<and> inbuf inp = [] \<and> symb inp = EOF)"
      and eq: "(case p inp result of
          None \<Rightarrow> None
        | Some (Inl e) \<Rightarrow> Some (Inl e)
        | Some (Inr (b, inp1, result1)) \<Rightarrow>
            if b then many p inp1 result1 else Some (Inr (True, inp1, result1))) = Some y"
    show "\<not> (p = accept is_eof \<and> inbuf inp = [] \<and> symb inp = EOF)"
    proof
      assume a: "p = accept is_eof \<and> inbuf inp = [] \<and> symb inp = EOF"
      then have "p inp result = Some (Inr (True, pstream_next inp, push_back result EOF))"
        by (simp add: accept_def is_eof_def char_to_int_EOF)
      with eq have "many p (pstream_next inp) (push_back result EOF) = Some y"
        by simp
      from IH [OF this] a show False
        by (simp add: next_at_end)
    qed
  qed
  with assms show False by simp
qed

section \<open>Reducers\<close>

lemma fmap_choice_one:
  "fmap_choice dflt f [p] = Instance (\<lambda>inp result.
     case any_parsers_second [p] 0 inp [dflt] of
       None \<Rightarrow> None
     | Some (Inl e) \<Rightarrow> Some (Inl e)
     | Some (Inr (i, inp1, tmp1)) \<Rightarrow>
         if i \<ge> 0 then Some (Inr (True, inp1, f result i tmp1))
         else Some (Inr (False, inp1, result)))"
  by (simp add: fmap_choice_def fmap_any_def)

lemma fmap_choice_two:
  "fmap_choice dflt f [p, q] = Instance (\<lambda>inp result.
     case any_parsers_first [p, q] 0 (any_parsers_second [p, q] (Suc 0)) inp [dflt, dflt] of
       None \<Rightarrow> None
     | Some (Inl e) \<Rightarrow> Some (Inl e)
     | Some (Inr (i, inp1, tmp1)) \<Rightarrow>
         if i \<ge> 0 then Some (Inr (True, inp1, f result i tmp1))
         else Some (Inr (False, inp1, result)))"
  by (simp add: fmap_choice_def fmap_any_def)

lemma fmap_sequence_one:
  "fmap_sequence dflt f [p] = Instance (\<lambda>inp result.
     case all_parsers_second [p] 0 inp [dflt] of
       None \<Rightarrow> None
     | Some (Inl e) \<Rightarrow> Some (Inl e)
     | Some (Inr (b, inp1, tmp1)) \<Rightarrow>
         if b then Some (Inr (True, inp1, f result tmp1))
         else Some (Inr (False, inp1, result)))"
  by (simp add: fmap_sequence_def fmap_all_def)

lemma fmap_sequence_two:
  "fmap_sequence dflt f [p, q] = Instance (\<lambda>inp result.
     case all_parsers_first [p, q] 0 (all_parsers_second [p, q] (Suc 0)) inp [dflt, dflt] of
       None \<Rightarrow> None
     | Some (Inl e) \<Rightarrow> Some (Inl e)
     | Some (Inr (b, inp1, tmp1)) \<Rightarrow>
         if b then Some (Inr (True, inp1, f result tmp1))
         else Some (Inr (False, inp1, result)))"
  by (simp add: fmap_sequence_def fmap_all_def)

lemma one_or_two:
  "length ps = 1 \<or> length ps = 2 \<Longrightarrow> (\<exists>p. ps = [p]) \<or> (\<exists>p q. ps = [p, q])"
  by (auto simp: length_Suc_conv numeral_2_eq_2)

lemma any_one_success:
  assumes "p inp (Some dflt) = Some (Inr (True, inp', Some t))"
  shows "any_parsers_second [p] 0 inp [dflt] = Some (Inr (0, inp', [t]))"
  using assms by (simp add: any_parsers_second_def store_def)

lemma any_one_failure:
  assumes "p inp (Some dflt) = Some (Inr (False, inp', Some t))"
  shows "any_parsers_second [p] 0 inp [dflt] = Some (Inr (- 1, inp', [t]))"
  using assms by (simp add: any_parsers_second_def store_def)

lemma any_two_first_success:
  assumes "p inp (Some dflt) = Some (Inr (True, inp', Some t))"
  shows "any_parsers_first [p, q] 0 (any_parsers_second [p, q] (Suc 0)) inp [dflt, dflt]
           = Some (Inr (0, inp', [t, dflt]))"
  using assms by (simp add: any_parsers_first_def store_def)

lemma any_two_second_success:
  assumes "p inp (Some dflt) = Some (Inr (False, inp1, Some t0))"
    and "q inp1 (Some dflt) = Some (Inr (True, inp', Some t))"
  shows "any_parsers_first [p, q] 0 (any_parsers_second [p, q] (Suc 0)) inp [dflt, dflt]
           = Some (Inr (1, inp', [t0, t]))"
  using assms by (simp add: any_parsers_first_def any_parsers_second_def store_def)

lemma any_two_failure:
  assumes "p inp (Some dflt) = Some (Inr (False, inp1, Some t0))"
    and "q inp1 (Some dflt) = Some (Inr (False, inp', Some t1))"
  shows "any_parsers_first [p, q] 0 (any_parsers_second [p, q] (Suc 0)) inp [dflt, dflt]
           = Some (Inr (- 1, inp', [t0, t1]))"
  using assms by (simp add: any_parsers_first_def any_parsers_second_def store_def)

lemma list_of_length_1: "length ts = Suc 0 \<Longrightarrow> ts = [ts ! 0]"
  by (cases ts) simp_all

lemma list_of_length_2: "length ts = Suc (Suc 0) \<Longrightarrow> ts = [ts ! 0, ts ! 1]"
  by (cases ts; cases "tl ts") simp_all

text \<open>
  C7, as the code has it, for the packs of parsers whose call operator has an instance.
  \<open>any(f, p\<^sub>1 ... p\<^sub>n)\<close> calls the parsers in order, each on the cursor its predecessor
  left and with a temporary that holds the default value. Let the first \<open>k\<close> of them
  return false, leaving the cursors \<open>ins\<close> and the contents \<open>ts\<close> in their temporaries.
  If the next parser returns true with the result \<open>t\<close>, the call returns true and the
  slot is what one call of \<open>f\<close> makes of it, given the index \<open>k\<close> and the temporaries:
  those of the failed parsers as they left them (\<open>ts\<close>), then \<open>t\<close>, then default values.
  If these are all the parsers, the call returns false and the slot is as it was.
\<close>

theorem any_reduces_at_first_success:
  assumes inst: "fmap_choice dflt f ps = Instance run"
    and "length ins = Suc k" and len: "length ts = k" and "k \<le> length ps"
    and fails: "\<forall>i<k. (ps ! i) (ins ! i) (Some dflt) = Some (Inr (False, ins ! Suc i, Some (ts ! i)))"
  shows "(\<forall>inp' t. k < length ps \<and> (ps ! k) (ins ! k) (Some dflt) = Some (Inr (True, inp', Some t)) \<longrightarrow>
           run (ins ! 0) result
             = Some (Inr (True, inp', f result (int k) (ts @ t # replicate (length ps - Suc k) dflt))))
    \<and> (k = length ps \<longrightarrow> run (ins ! 0) result = Some (Inr (False, ins ! k, result)))"
proof -
  from inst fmap_choice_resolves [of dflt f ps] have "length ps = 1 \<or> length ps = 2"
    by auto
  from one_or_two [OF this] show ?thesis
  proof (elim disjE exE)
    fix p
    assume ps: "ps = [p]"
    from inst have run: "run = (\<lambda>inp result.
       case any_parsers_second [p] 0 inp [dflt] of
         None \<Rightarrow> None
       | Some (Inl e) \<Rightarrow> Some (Inl e)
       | Some (Inr (i, inp1, tmp1)) \<Rightarrow>
           if i \<ge> 0 then Some (Inr (True, inp1, f result i tmp1))
           else Some (Inr (False, inp1, result)))"
      unfolding ps fmap_choice_one by simp
    show ?thesis
    proof (intro conjI allI impI)
      fix inp' t
      assume a: "k < length ps \<and> (ps ! k) (ins ! k) (Some dflt) = Some (Inr (True, inp', Some t))"
      with ps have k: "k = 0" and s: "p (ins ! 0) (Some dflt) = Some (Inr (True, inp', Some t))"
        by auto
      from k len show "run (ins ! 0) result
          = Some (Inr (True, inp', f result (int k) (ts @ t # replicate (length ps - Suc k) dflt)))"
        by (simp add: run ps any_one_success [where p = p, OF s])
    next
      assume "k = length ps"
      with ps have k: "k = Suc 0" by simp
      with fails ps have s: "p (ins ! 0) (Some dflt) = Some (Inr (False, ins ! Suc 0, Some (ts ! 0)))"
        by simp
      from k show "run (ins ! 0) result = Some (Inr (False, ins ! k, result))"
        by (simp add: run any_one_failure [where p = p, OF s])
    qed
  next
    fix p q
    assume ps: "ps = [p, q]"
    from inst have run: "run = (\<lambda>inp result.
       case any_parsers_first [p, q] 0 (any_parsers_second [p, q] (Suc 0)) inp [dflt, dflt] of
         None \<Rightarrow> None
       | Some (Inl e) \<Rightarrow> Some (Inl e)
       | Some (Inr (i, inp1, tmp1)) \<Rightarrow>
           if i \<ge> 0 then Some (Inr (True, inp1, f result i tmp1))
           else Some (Inr (False, inp1, result)))"
      unfolding ps fmap_choice_two by simp
    show ?thesis
    proof (intro conjI allI impI)
      fix inp' t
      assume a: "k < length ps \<and> (ps ! k) (ins ! k) (Some dflt) = Some (Inr (True, inp', Some t))"
      with ps have "k = 0 \<or> k = Suc 0" by auto
      then show "run (ins ! 0) result
          = Some (Inr (True, inp', f result (int k) (ts @ t # replicate (length ps - Suc k) dflt)))"
      proof
        assume k: "k = 0"
        with a ps have s: "p (ins ! 0) (Some dflt) = Some (Inr (True, inp', Some t))"
          by simp
        from k len show ?thesis
          by (simp add: run ps any_two_first_success [where p = p, OF s])
      next
        assume k: "k = Suc 0"
        with fails ps have s0: "p (ins ! 0) (Some dflt) = Some (Inr (False, ins ! Suc 0, Some (ts ! 0)))"
          by simp
        from k a ps have s1: "q (ins ! Suc 0) (Some dflt) = Some (Inr (True, inp', Some t))"
          by simp
        from k len have ts: "ts = [ts ! 0]"
          by (simp add: list_of_length_1)
        have "ts @ t # replicate (length ps - Suc k) dflt = [ts ! 0, t]"
          using k ps by (subst ts) simp
        with k show ?thesis
          by (simp add: run any_two_second_success [where p = p and q = q, OF s0 s1])
      qed
    next
      assume "k = length ps"
      with ps have k: "k = Suc (Suc 0)" by simp
      from fails [rule_format, of 0] k ps
      have s0: "p (ins ! 0) (Some dflt) = Some (Inr (False, ins ! Suc 0, Some (ts ! 0)))"
        by simp
      from fails [rule_format, of "Suc 0"] k ps
      have s1: "q (ins ! Suc 0) (Some dflt) = Some (Inr (False, ins ! Suc (Suc 0), Some (ts ! Suc 0)))"
        by simp
      from k show "run (ins ! 0) result = Some (Inr (False, ins ! k, result))"
        by (simp add: run any_two_failure [where p = p and q = q, OF s0 s1])
    qed
  qed
qed

theorem any_reduces_at_first_success_witness:
  "(case fmap_choice '''' (\<lambda>r k ts. map_option (\<lambda>v. (k, ts)) r)
          [accept (Is_char CHR ''a''), accept (Is_char CHR ''b'')] of
      No_matching_function \<Rightarrow> None
    | Instance run \<Rightarrow> run (pstream_init ''b'') (Some (0, [])))
     = Some (Inr (True, \<lparr> inbuf = [], count = 1, row = 1, col = 1, symb = - 1 \<rparr>,
                  Some (1, ['''', ''b''])))
   \<and> (case fmap_choice '''' (\<lambda>r k ts. map_option (\<lambda>v. (k, ts)) r)
          [accept (Is_char CHR ''a'')] of
      No_matching_function \<Rightarrow> None
    | Instance run \<Rightarrow> run (pstream_init ''b'') (Some (0, [])))
     = Some (Inr (False, pstream_init ''b'', Some (0, [])))"
proof -
  let ?f = "\<lambda>(r :: (int \<times> string list) option) (k :: int) (ts :: string list). map_option (\<lambda>v. (k, ts)) r"
  let ?ps = "[accept (Is_char CHR ''a''), accept (Is_char CHR ''b'')]"
  let ?qs = "[accept (Is_char CHR ''a'')]"
  let ?ins = "[pstream_init ''b'', pstream_init ''b'']"
  obtain run2 where run2: "fmap_choice '''' ?f ?ps = Instance run2"
    using fmap_choice_instance [of ?ps "''''" ?f] by auto
  obtain run1 where run1: "fmap_choice '''' ?f ?qs = Instance run1"
    using fmap_choice_instance [of ?qs "''''" ?f] by auto
  have h: "\<forall>i<1. (?ps ! i) (?ins ! i) (Some '''')
      = Some (Inr (False, ?ins ! Suc i, Some (['''' :: string] ! i)))"
    by (simp add: accept_a_on_b)
  have g: "\<forall>i<1. (?qs ! i) (?ins ! i) (Some '''')
      = Some (Inr (False, ?ins ! Suc i, Some (['''' :: string] ! i)))"
    by (simp add: accept_a_on_b)
  from any_reduces_at_first_success [OF run2 _ _ _ h, of "Some (0, [])"]
    any_reduces_at_first_success [OF run1 _ _ _ g, of "Some (0, [])"]
  show ?thesis
    by (simp add: run1 run2 accept_b_on_b)
qed

text \<open>
  C7 as stated fails: a parser that returns false may have written to its temporary.
  On \<open>"ax"\<close> the first alternative \<open>accept('a') && accept('b')\<close> fails after writing
  \<open>"a"\<close>, the second succeeds, and the reducer receives \<open>"a"\<close> and \<open>"x"\<close>, not a default
  value and \<open>"x"\<close>.
\<close>

theorem any_passes_failed_writes_counterexample:
  "(case fmap_choice '''' (\<lambda>r k ts. map_option (\<lambda>v. (k, ts)) r)
          [combinator_sequence (accept (Is_char CHR ''a'')) (accept (Is_char CHR ''b'')),
           accept (Is_char CHR ''x'')] of
      No_matching_function \<Rightarrow> None
    | Instance run \<Rightarrow> run (pstream_init ''ax'') (Some (0, [])))
     = Some (Inr (True, \<lparr> inbuf = [], count = 2, row = 1, col = 2, symb = - 1 \<rparr>,
                  Some (1, [''a'', ''x''])))
   \<and> [''a'', ''x''] \<noteq> (replicate 2 '''') [1 := ''x'']"
  by (simp add: fmap_choice_two any_parsers_first_def any_parsers_second_def store_def
      combinator_sequence_def accept_def cursor_simps char_simps numeral_2_eq_2)

lemma all_one:
  assumes "p inp (Some dflt) = Some (Inr (b, inp', r'))"
  shows "all_parsers_second [p] 0 inp [dflt] = Some (Inr (b, inp', store [dflt] 0 r'))"
  using assms by (simp add: all_parsers_second_def)

lemma all_two_first_failure:
  assumes "p inp (Some dflt) = Some (Inr (False, inp', r'))"
  shows "all_parsers_first [p, q] 0 (all_parsers_second [p, q] (Suc 0)) inp [dflt, dflt]
           = Some (Inr (False, inp', store [dflt, dflt] 0 r'))"
  using assms by (simp add: all_parsers_first_def)

lemma all_two_second:
  assumes "p inp (Some dflt) = Some (Inr (True, inp1, Some t0))"
    and "q inp1 (Some dflt) = Some (Inr (b, inp', r'))"
  shows "all_parsers_first [p, q] 0 (all_parsers_second [p, q] (Suc 0)) inp [dflt, dflt]
           = Some (Inr (b, inp', store [t0, dflt] (Suc 0) r'))"
  using assms by (simp add: all_parsers_first_def all_parsers_second_def store_def)

text \<open>
  What C6 says holds for the packs whose call operator has an instance. \<open>all\<close> calls the
  parsers in order, each on the cursor its predecessor left and with a temporary that
  holds the default value. Let the first \<open>k\<close> of them return true, leaving the cursors
  \<open>ins\<close> and the sub-results \<open>ts\<close>. If these are all the parsers, the call returns true
  and the slot is what one call of \<open>f\<close> makes of it, given all the sub-results. If the
  next parser returns false, the call returns false with that parser's cursor and the
  slot as it was.
\<close>

lemma all_runs_in_order_then_reduces:
  assumes inst: "fmap_sequence dflt f ps = Instance run"
    and "length ins = Suc k" and len: "length ts = k" and "k \<le> length ps"
    and succeeds: "\<forall>i<k. (ps ! i) (ins ! i) (Some dflt) = Some (Inr (True, ins ! Suc i, Some (ts ! i)))"
  shows "(k = length ps \<longrightarrow>
           run (ins ! 0) result = Some (Inr (True, ins ! k, f result ts)))
    \<and> (\<forall>inp' r'. k < length ps \<and> (ps ! k) (ins ! k) (Some dflt) = Some (Inr (False, inp', r')) \<longrightarrow>
           run (ins ! 0) result = Some (Inr (False, inp', result)))"
proof -
  from inst fmap_sequence_resolves [of dflt f ps] have "length ps = 1 \<or> length ps = 2"
    by auto
  from one_or_two [OF this] show ?thesis
  proof (elim disjE exE)
    fix p
    assume ps: "ps = [p]"
    from inst have run: "run = (\<lambda>inp result.
       case all_parsers_second [p] 0 inp [dflt] of
         None \<Rightarrow> None
       | Some (Inl e) \<Rightarrow> Some (Inl e)
       | Some (Inr (b, inp1, tmp1)) \<Rightarrow>
           if b then Some (Inr (True, inp1, f result tmp1))
           else Some (Inr (False, inp1, result)))"
      unfolding ps fmap_sequence_one by simp
    show ?thesis
    proof (intro conjI allI impI)
      assume "k = length ps"
      with ps have k: "k = Suc 0" by simp
      from succeeds [rule_format, of 0] k ps
      have s: "p (ins ! 0) (Some dflt) = Some (Inr (True, ins ! Suc 0, Some (ts ! 0)))"
        by simp
      from k len have ts: "[ts ! 0] = ts"
        using list_of_length_1 [of ts] by simp
      from k show "run (ins ! 0) result = Some (Inr (True, ins ! k, f result ts))"
        by (simp add: run all_one [where p = p, OF s] store_def ts)
    next
      fix inp' r'
      assume a: "k < length ps \<and> (ps ! k) (ins ! k) (Some dflt) = Some (Inr (False, inp', r'))"
      with ps have k: "k = 0" and s: "p (ins ! 0) (Some dflt) = Some (Inr (False, inp', r'))"
        by auto
      show "run (ins ! 0) result = Some (Inr (False, inp', result))"
        by (simp add: run all_one [where p = p, OF s])
    qed
  next
    fix p q
    assume ps: "ps = [p, q]"
    from inst have run: "run = (\<lambda>inp result.
       case all_parsers_first [p, q] 0 (all_parsers_second [p, q] (Suc 0)) inp [dflt, dflt] of
         None \<Rightarrow> None
       | Some (Inl e) \<Rightarrow> Some (Inl e)
       | Some (Inr (b, inp1, tmp1)) \<Rightarrow>
           if b then Some (Inr (True, inp1, f result tmp1))
           else Some (Inr (False, inp1, result)))"
      unfolding ps fmap_sequence_two by simp
    show ?thesis
    proof (intro conjI allI impI)
      assume "k = length ps"
      with ps have k: "k = Suc (Suc 0)" by simp
      from succeeds [rule_format, of 0] k ps
      have s0: "p (ins ! 0) (Some dflt) = Some (Inr (True, ins ! Suc 0, Some (ts ! 0)))"
        by simp
      from succeeds [rule_format, of "Suc 0"] k ps
      have s1: "q (ins ! Suc 0) (Some dflt) = Some (Inr (True, ins ! Suc (Suc 0), Some (ts ! Suc 0)))"
        by simp
      from k len have ts: "[ts ! 0, ts ! Suc 0] = ts"
        using list_of_length_2 [of ts] by simp
      from k show "run (ins ! 0) result = Some (Inr (True, ins ! k, f result ts))"
        by (simp add: run all_two_second [where p = p and q = q, OF s0 s1] store_def ts)
    next
      fix inp' r'
      assume a: "k < length ps \<and> (ps ! k) (ins ! k) (Some dflt) = Some (Inr (False, inp', r'))"
      with ps have "k = 0 \<or> k = Suc 0" by auto
      then show "run (ins ! 0) result = Some (Inr (False, inp', result))"
      proof
        assume k: "k = 0"
        with a ps have s: "p (ins ! 0) (Some dflt) = Some (Inr (False, inp', r'))"
          by simp
        show ?thesis
          by (simp add: run all_two_first_failure [where p = p, OF s])
      next
        assume k: "k = Suc 0"
        from succeeds [rule_format, of 0] k ps
        have s0: "p (ins ! 0) (Some dflt) = Some (Inr (True, ins ! Suc 0, Some (ts ! 0)))"
          by simp
        from k a ps have s1: "q (ins ! Suc 0) (Some dflt) = Some (Inr (False, inp', r'))"
          by simp
        show ?thesis
          by (simp add: run all_two_second [where p = p and q = q, OF s0 s1])
      qed
    qed
  qed
qed

lemma all_of_two_on_ax:
  "(case fmap_sequence '''' (\<lambda>r ts. map_option (\<lambda>v. v @ ts) r)
          [accept (Is_char CHR ''a''), accept (Is_char CHR ''x'')] of
      No_matching_function \<Rightarrow> None
    | Instance run \<Rightarrow> run (pstream_init ''ax'') (Some [''+'']))
     = Some (Inr (True, \<lparr> inbuf = [], count = 2, row = 1, col = 2, symb = - 1 \<rparr>,
                  Some [''+'', ''a'', ''x'']))"
  by (simp add: fmap_sequence_two all_parsers_first_def all_parsers_second_def store_def
      accept_def cursor_simps char_simps)

text \<open>
  C6 holds of no pack of three or more parsers: the call inside the first overload of
  \<open>all_parsers\<close> passes the single argument \<open>is\<close> with an index pack of two or more, and
  neither overload takes that. For \<open>all(f, accept('a'), accept('b'), accept('c'))\<close> the
  call operator has no instance, so no parser runs and \<open>f\<close> is not called.
\<close>

theorem all_of_three_parsers_has_no_instance:
  "fmap_sequence '''' (\<lambda>r ts. map_option (\<lambda>v. v @ ts) r)
      [accept (Is_char CHR ''a''), accept (Is_char CHR ''b''), accept (Is_char CHR ''c'')]
     = No_matching_function"
  by (simp add: fmap_sequence_resolves)

text \<open>
  The same holds of \<open>any\<close>: the four alternatives of \<open>parse_operator\<close> in
  \<open>example_expression.cpp\<close> have no instance either.
\<close>

lemma any_of_four_parsers_has_no_instance:
  "fmap_choice '''' (\<lambda>r k ts. map_option (\<lambda>v. k) r)
      [accept (Is_char CHR ''+''), accept (Is_char CHR ''-''), accept (Is_char CHR ''*''),
       accept (Is_char CHR ''/'')]
     = No_matching_function"
  by (simp add: fmap_choice_resolves)

end
